theory Spec2Isabelle
  imports Complex_Main "HOL-Library.Monad_Syntax"
begin

section \<open>Numbers, points and strokes\<close>

text \<open>
  The font creator computes with JavaScript numbers, the values of IEEE 754
  binary64. The stroke simplifier is modelled in binary64 arithmetic (next
  section): its test \<open>maxDist > tolerance\<close> at tolerance 0 asks whether a computed
  distance is zero, which depends on how the distance is rounded. The other
  sections model numbers as \<^typ>\<open>real\<close>: there every arithmetic operation is
  exact, and \<open>NaN\<close> and the infinities do not occur. Array indices and lengths are
  \<^typ>\<open>nat\<close>. A point is the object \<open>{x, y}\<close> with finite coordinates; a stroke is
  an array of points.
\<close>

datatype point = Point (px: real) (py: real)

type_synonym stroke = "point list"

section \<open>Binary64 arithmetic\<close>

text \<open>
  A JavaScript number is a finite binary64 value, an infinity or \<open>NaN\<close>. A finite
  value is kept as the real number it denotes. The two zeros are the one value
  \<open>Fin 0\<close>: they compare equal, and only a division by a zero or a function such
  as \<open>Math.atan2\<close> tells them apart, neither of which the simplifier reaches.
\<close>

datatype double = Fin real | PosInf | NegInf | NaN

text \<open>
  Rounding to the nearest integer, a tie going to the even one.
\<close>

definition roundHalfEven :: "real \<Rightarrow> int" where
  "roundHalfEven r =
    (let f = \<lfloor>r\<rfloor>; d = r - of_int f
     in if d < 1 / 2 then f else if 1 / 2 < d then f + 1 else if even f then f else f + 1)"

text \<open>
  The binary64 values near a real \<open>x\<close> of binary exponent \<open>e\<close> (the floor of
  the binary logarithm of its magnitude) are the multiples of \<open>2\<^sup>e\<^sup>-\<^sup>5\<^sup>2\<close> (53 significant bits); below the smallest normal exponent
  \<open>-1022\<close> they are the multiples of \<open>2\<^sup>-\<^sup>1\<^sup>0\<^sup>7\<^sup>4\<close> (the subnormal values).
\<close>

definition ulpExponent :: "real \<Rightarrow> int" where
  "ulpExponent x = max (\<lfloor>log 2 \<bar>x\<bar>\<rfloor> - 52) (- 1074)"

text \<open>
  \<open>round64 x\<close> is the binary64 value of the real \<open>x\<close> in the rounding mode of
  JavaScript, round to nearest, ties to even: \<open>x\<close> is rounded to the nearest
  multiple of its unit, and a rounded magnitude of \<open>2\<^sup>1\<^sup>0\<^sup>2\<^sup>4\<close> or more overflows to
  an infinity.
\<close>

definition round64 :: "real \<Rightarrow> double" where
  "round64 x =
    (if x = 0 then Fin 0
     else
       (let u = 2 powi ulpExponent x;
            y = of_int (roundHalfEven (x / u)) * u
        in if 2 ^ 1024 \<le> \<bar>y\<bar> then (if 0 < x then PosInf else NegInf) else Fin y))"

text \<open>
  The operators \<open>+\<close>, \<open>-\<close>, \<open>*\<close>, \<open>/\<close> and \<open>Math.sqrt\<close>: the correctly rounded result
  on finite operands, and the IEEE 754 results on infinities and \<open>NaN\<close>.
  \<open>x ** 2\<close> is the rounded product \<open>x * x\<close>. Dividing a finite number by zero
  gives the infinity of the dividend's sign (the divisor taken as \<open>+0\<close>), and
  \<open>0 / 0\<close> is \<open>NaN\<close>.
\<close>

definition infinity :: "bool \<Rightarrow> double" where
  "infinity negative = (if negative then NegInf else PosInf)"

fun isNegative :: "double \<Rightarrow> bool" where
  "isNegative (Fin a) = (a < 0)"
| "isNegative NegInf = True"
| "isNegative PosInf = False"
| "isNegative NaN = False"

fun dneg :: "double \<Rightarrow> double" where
  "dneg (Fin a) = Fin (- a)"
| "dneg PosInf = NegInf"
| "dneg NegInf = PosInf"
| "dneg NaN = NaN"

fun dadd :: "double \<Rightarrow> double \<Rightarrow> double" where
  "dadd (Fin a) (Fin b) = round64 (a + b)"
| "dadd NaN y = NaN"
| "dadd x NaN = NaN"
| "dadd PosInf NegInf = NaN"
| "dadd NegInf PosInf = NaN"
| "dadd PosInf y = PosInf"
| "dadd x PosInf = PosInf"
| "dadd NegInf y = NegInf"
| "dadd x NegInf = NegInf"

definition dsub :: "double \<Rightarrow> double \<Rightarrow> double" where
  "dsub x y = dadd x (dneg y)"

fun dmul :: "double \<Rightarrow> double \<Rightarrow> double" where
  "dmul (Fin a) (Fin b) = round64 (a * b)"
| "dmul NaN y = NaN"
| "dmul x NaN = NaN"
| "dmul x y = (if x = Fin 0 \<or> y = Fin 0 then NaN else infinity (isNegative x \<noteq> isNegative y))"

fun ddiv :: "double \<Rightarrow> double \<Rightarrow> double" where
  "ddiv (Fin a) (Fin b) =
     (if b = 0 then (if a = 0 then NaN else infinity (a < 0)) else round64 (a / b))"
| "ddiv NaN y = NaN"
| "ddiv x NaN = NaN"
| "ddiv (Fin a) y = Fin 0"
| "ddiv x (Fin b) = infinity (isNegative x \<noteq> (b < 0))"
| "ddiv x y = NaN"

fun dsqrt :: "double \<Rightarrow> double" where
  "dsqrt (Fin a) = (if a < 0 then NaN else round64 (sqrt a))"
| "dsqrt PosInf = PosInf"
| "dsqrt NegInf = NaN"
| "dsqrt NaN = NaN"

definition dsquare :: "double \<Rightarrow> double" where
  "dsquare x = dmul x x"

text \<open>The comparison \<open>x > y\<close>: false when either side is \<open>NaN\<close>.\<close>

fun dgt :: "double \<Rightarrow> double \<Rightarrow> bool" where
  "dgt (Fin a) (Fin b) = (b < a)"
| "dgt NaN y = False"
| "dgt x NaN = False"
| "dgt PosInf PosInf = False"
| "dgt PosInf y = True"
| "dgt x PosInf = False"
| "dgt NegInf y = False"
| "dgt x NegInf = True"

subsection \<open>Properties of rounding\<close>

lemma dgt_trans: "dgt x y \<Longrightarrow> dgt y z \<Longrightarrow> dgt x z"
  by (cases x; cases y; cases z) simp_all

lemma dgt_antimono: "dgt x (Fin b) \<Longrightarrow> a \<le> b \<Longrightarrow> dgt x (Fin a)"
  by (cases x) simp_all

lemma dgt_irrefl [simp]: "\<not> dgt x x"
  by (cases x) simp_all

text \<open>Values with at most 53 significant bits in the exponent range round to themselves.\<close>

lemma roundHalfEven_of_int [simp]: "roundHalfEven (of_int m) = m"
  by (simp add: roundHalfEven_def)

lemma floor_log2_eq:
  assumes "2 powi e \<le> \<bar>x\<bar>" "\<bar>x\<bar> < 2 powi (e + 1)"
  shows "\<lfloor>log 2 \<bar>x\<bar>\<rfloor> = e"
proof -
  have p: "0 < \<bar>x\<bar>"
    using assms(1) by (smt (verit) zero_less_power_int)
  have "2 powr real_of_int e \<le> \<bar>x\<bar>" "\<bar>x\<bar> < 2 powr real_of_int (e + 1)"
    using assms by (simp_all only: powr_real_of_int' [of 2, simplified])
  then show ?thesis
    using floor_log_eq_powr_iff [OF p, of 2 e] by simp
qed

lemma floor_log2_less:
  assumes "x \<noteq> 0" "\<bar>x\<bar> < 2 powi e"
  shows "\<lfloor>log 2 \<bar>x\<bar>\<rfloor> < e"
proof -
  have p: "0 < \<bar>x\<bar>" using assms(1) by simp
  have "log 2 \<bar>x\<bar> < real_of_int e"
    using assms(2) p by (simp add: log_less_iff powr_real_of_int')
  then show ?thesis by linarith
qed

lemma round64_exact:
  assumes "x = of_int m * 2 powi k" "\<bar>m\<bar> < 2 ^ 53" "- 1074 \<le> k" "k \<le> 971"
  shows "round64 x = Fin x"
proof (cases "x = 0")
  case True
  then show ?thesis by (simp add: round64_def)
next
  case False
  define E where "E = ulpExponent x"
  have "\<bar>x\<bar> = \<bar>real_of_int m\<bar> * 2 powi k"
    by (simp add: assms(1) abs_mult)
  also have b: "\<dots> < 2 ^ 53 * 2 powi k"
  proof -
    have "\<bar>real_of_int m\<bar> < 2 ^ 53"
      using assms(2) by (metis of_int_abs of_int_less_numeral_power_cancel_iff)
    then show ?thesis by (simp add: zero_less_power_int)
  qed
  also have "\<dots> = 2 powi (53 + k)"
    by (simp add: power_int_add)
  finally have lt: "\<bar>x\<bar> < 2 powi (53 + k)" .
  have "\<lfloor>log 2 \<bar>x\<bar>\<rfloor> < 53 + k"
    by (rule floor_log2_less [OF False lt])
  then have Ek: "E \<le> k"
    using assms(3) by (simp add: E_def ulpExponent_def)
  have "2 powi k = 2 powi (k - E) * (2 :: real) powi E"
    by (simp flip: power_int_add)
  also have "(2 :: real) powi (k - E) = 2 ^ nat (k - E)"
    using Ek by (simp add: power_int_def)
  finally have k: "(2 :: real) powi k = 2 ^ nat (k - E) * 2 powi E" .
  have q: "x / 2 powi E = of_int (m * 2 ^ nat (k - E))"
    by (simp add: assms(1) k)
  have y: "of_int (roundHalfEven (x / 2 powi E)) * 2 powi E = x"
    unfolding q roundHalfEven_of_int by (simp add: assms(1) k)
  have "(2 :: real) powi (53 + k) \<le> 2 powi 1024"
    using assms(4) by (intro power_int_increasing) simp_all
  also have "(2 :: real) powi 1024 = 2 ^ 1024"
    by (simp add: power_int_def)
  finally have "\<bar>x\<bar> < 2 ^ 1024"
    using lt by linarith
  then show ?thesis
    using False y by (simp add: round64_def Let_def E_def [symmetric])
qed

lemma round64_of_int: "\<bar>m\<bar> < 2 ^ 53 \<Longrightarrow> round64 (of_int m) = Fin (of_int m)"
  using round64_exact [of "of_int m" m 0] by simp

lemma round64_dyadic:
  assumes "\<bar>m\<bar> < 2 ^ 53" "j \<le> 1074"
  shows "round64 (of_int m / 2 ^ j) = Fin (of_int m / 2 ^ j)"
proof -
  have "(2 :: real) powi (- int j) = inverse (2 ^ j)"
    by (simp add: power_int_minus)
  then have "of_int m / 2 ^ j = of_int m * (2 :: real) powi (- int j)"
    by (simp add: divide_inverse)
  then show ?thesis
    using assms by (intro round64_exact [of _ m "- int j"]) simp_all
qed

lemma round64_0 [simp]: "round64 0 = Fin 0"
  by (simp add: round64_def)

lemma round64_1 [simp]: "round64 1 = Fin 1"
  using round64_of_int [of 1] by simp

lemma round64_numeral [simp]:
  "(numeral n :: int) < 2 ^ 53 \<Longrightarrow> round64 (numeral n) = Fin (numeral n)"
  using round64_of_int [of "numeral n"] by simp

lemma round64_neg_numeral [simp]:
  "(numeral n :: int) < 2 ^ 53 \<Longrightarrow> round64 (- numeral n) = Fin (- numeral n)"
  using round64_of_int [of "- numeral n"] by simp

lemma round64_half [simp]: "round64 (1 / 2) = Fin (1 / 2)"
  using round64_dyadic [of 1 1] by simp

text \<open>
  A real in the normal range rounds to the multiple of its unit that is less
  than half a unit away; it never rounds to zero; and a real of magnitude at most
  \<open>2\<^sup>-\<^sup>1\<^sup>0\<^sup>7\<^sup>5\<close>, half the smallest subnormal value, rounds to zero.
\<close>

lemma roundHalfEven_near:
  assumes "\<bar>r - of_int m\<bar> < 1 / 2"
  shows "roundHalfEven r = m"
proof (cases "of_int m \<le> r")
  case True
  then have f: "\<lfloor>r\<rfloor> = m" using assms by linarith
  show ?thesis using assms True by (simp add: roundHalfEven_def f)
next
  case False
  then have f: "\<lfloor>r\<rfloor> = m - 1" using assms by linarith
  show ?thesis using assms False by (simp add: roundHalfEven_def f)
qed

lemma ulpExponent_normal:
  assumes "2 powi e \<le> \<bar>x\<bar>" "\<bar>x\<bar> < 2 powi (e + 1)" "- 1022 \<le> e"
  shows "ulpExponent x = e - 52"
  using floor_log2_eq [OF assms(1,2)] assms(3) by (simp add: ulpExponent_def)

lemma round64_near:
  assumes "2 powi e \<le> \<bar>x\<bar>" "\<bar>x\<bar> < 2 powi (e + 1)" "- 1022 \<le> e" "e \<le> 1022"
      and "\<bar>x / 2 powi (e - 52) - of_int m\<bar> < 1 / 2"
  shows "round64 x = Fin (of_int m * 2 powi (e - 52))"
proof -
  have nz: "x \<noteq> 0"
    using assms(1) by (smt (verit) zero_less_power_int)
  have u: "ulpExponent x = e - 52"
    by (rule ulpExponent_normal [OF assms(1-3)])
  have r: "roundHalfEven (x / 2 powi (e - 52)) = m"
    by (rule roundHalfEven_near [OF assms(5)])
  have up: "(0 :: real) < 2 powi (e - 52)" by (simp add: zero_less_power_int)
  have "\<bar>x\<bar> / 2 powi (e - 52) < 2 powi (e + 1) / 2 powi (e - 52)"
    using assms(2) up by (simp add: divide_strict_right_mono)
  also have "(2 :: real) powi (e + 1) / 2 powi (e - 52) = 2 powi 53"
    by (simp flip: power_int_diff)
  finally have "\<bar>x / 2 powi (e - 52)\<bar> < 2 powi 53"
    using up by (simp add: abs_divide)
  then have "\<bar>real_of_int m\<bar> < 2 powi 53 + 1 / 2"
    using assms(5) by linarith
  then have "\<bar>real_of_int m\<bar> < 2 ^ 53 + 1"
    by (simp add: power_int_def)
  then have "real_of_int \<bar>m\<bar> < real_of_int (2 ^ 53 + 1)"
    by simp
  then have "\<bar>m\<bar> < 2 ^ 53 + 1"
    by (simp only: of_int_less_iff)
  then have "\<bar>m\<bar> \<le> 2 ^ 53"
    by simp
  then have "real_of_int \<bar>m\<bar> \<le> real_of_int (2 ^ 53)"
    by (simp only: of_int_le_iff)
  then have "\<bar>real_of_int m\<bar> \<le> 2 powi 53"
    by (simp add: power_int_def)
  then have "\<bar>real_of_int m * 2 powi (e - 52)\<bar> \<le> 2 powi 53 * 2 powi (e - 52)"
    using up by (simp add: abs_mult mult_right_mono)
  also have "(2 :: real) powi 53 * 2 powi (e - 52) = 2 powi (e + 1)"
  proof -
    have "(2 :: real) powi (53 + (e - 52)) = 2 powi 53 * 2 powi (e - 52)"
      by (rule power_int_add) simp
    moreover have "53 + (e - 52) = e + 1" by simp
    ultimately show ?thesis by (simp only:)
  qed
  also have "(2 :: real) powi (e + 1) \<le> 2 powi 1023"
    using assms(4) by (intro power_int_increasing) simp_all
  also have "(2 :: real) powi 1023 < 2 powi 1024"
    by (intro power_int_strict_increasing) simp_all
  also have "(2 :: real) powi 1024 = 2 ^ 1024"
    by (simp add: power_int_def)
  finally have "\<not> 2 ^ 1024 \<le> \<bar>real_of_int m * 2 powi (e - 52)\<bar>"
    by simp
  then show ?thesis
    using nz by (simp add: round64_def Let_def u r)
qed

lemma roundHalfEven_ge_floor: "\<lfloor>r\<rfloor> \<le> roundHalfEven r"
  by (simp add: roundHalfEven_def Let_def)

lemma round64_positive:
  assumes "2 powi e \<le> x" "x < 2 powi (e + 1)" "- 1022 \<le> e"
  shows "dgt (round64 x) (Fin 0)"
proof -
  have xp: "0 < x"
    using assms(1) by (smt (verit) zero_less_power_int)
  then have ax: "\<bar>x\<bar> = x" by simp
  have u: "ulpExponent x = e - 52"
    using ulpExponent_normal [of e x] assms ax by simp
  have up: "(0 :: real) < 2 powi (e - 52)" by (simp add: zero_less_power_int)
  have "(2 :: real) powi e / 2 powi (e - 52) = 2 powi 52"
    by (simp flip: power_int_diff)
  moreover have "2 powi e / 2 powi (e - 52) \<le> x / 2 powi (e - 52)"
    by (rule divide_right_mono [OF assms(1)]) (use up in simp)
  ultimately have "2 powi 52 \<le> x / 2 powi (e - 52)"
    by (simp only:)
  moreover have "(1 :: real) \<le> 2 powi 52"
    by (simp add: power_int_def)
  ultimately have "1 \<le> x / 2 powi (e - 52)"
    by linarith
  then have "1 \<le> \<lfloor>x / 2 powi (e - 52)\<rfloor>"
    by linarith
  then have "1 \<le> roundHalfEven (x / 2 powi (e - 52))"
    using roundHalfEven_ge_floor [of "x / 2 powi (e - 52)"] by linarith
  then have "0 < real_of_int (roundHalfEven (x / 2 powi (e - 52))) * 2 powi (e - 52)"
    using up by simp
  then show ?thesis
    using xp by (simp add: round64_def Let_def u)
qed

lemma round64_tiny:
  assumes "\<bar>x\<bar> \<le> 2 powi (- 1075)"
  shows "round64 x = Fin 0"
proof (cases "x = 0")
  case True
  then show ?thesis by simp
next
  case False
  have "(2 :: real) powi (- 1075) < 2 powi (- 1074)"
    by (intro power_int_strict_increasing) simp_all
  then have "\<bar>x\<bar> < 2 powi (- 1074)" using assms by linarith
  then have "\<lfloor>log 2 \<bar>x\<bar>\<rfloor> < - 1074"
    by (rule floor_log2_less [OF False])
  then have "\<lfloor>log 2 \<bar>x\<bar>\<rfloor> - 52 \<le> - 1074"
    by linarith
  then have u: "ulpExponent x = - 1074"
    by (simp only: ulpExponent_def max_absorb2)
  have up: "(0 :: real) < 2 powi (- 1074)" by (simp add: zero_less_power_int)
  have "(2 :: real) powi (- 1075) / 2 powi (- 1074) = 2 powi (- 1)"
    by (simp flip: power_int_diff)
  moreover have "\<bar>x\<bar> / 2 powi (- 1074) \<le> 2 powi (- 1075) / 2 powi (- 1074)"
    by (rule divide_right_mono [OF assms]) (use up in simp)
  moreover have "(2 :: real) powi (- 1) = 1 / 2"
    by (simp add: power_int_minus inverse_eq_divide)
  ultimately have "\<bar>x\<bar> / 2 powi (- 1074) \<le> 1 / 2"
    by (simp only:)
  then have h: "\<bar>x / 2 powi (- 1074)\<bar> \<le> 1 / 2"
    using up by (simp add: abs_divide)
  have "roundHalfEven (x / 2 powi (- 1074)) = 0"
  proof -
    let ?r = "x / 2 powi (- 1074)"
    consider "?r = 1 / 2" | "?r = - (1 / 2)" | "\<bar>?r - of_int 0\<bar> < 1 / 2"
      using h by fastforce
    then show ?thesis
    proof cases
      case 1
      have "roundHalfEven (1 / 2) = 0" by (simp add: roundHalfEven_def)
      then show ?thesis by (simp only: 1)
    next
      case 2
      have "roundHalfEven (- (1 / 2)) = 0" by (simp add: roundHalfEven_def)
      then show ?thesis by (simp only: 2)
    next
      case 3
      then show ?thesis by (rule roundHalfEven_near)
    qed
  qed
  then show ?thesis
    using False by (simp add: round64_def Let_def u)
qed

section \<open>Stroke simplification (simplifyPath, douglasPeucker)\<close>

text \<open>
  \<open>calculateDistanceToLine(point, lineStart, lineEnd)\<close>, operation by operation.
  The division by \<open>mag * mag\<close> is reached only when \<open>mag\<close> is not zero.
\<close>

definition calculateDistanceToLine :: "point \<Rightarrow> point \<Rightarrow> point \<Rightarrow> double" where
  "calculateDistanceToLine p lineStart lineEnd =
    (let dx = dsub (Fin (px lineEnd)) (Fin (px lineStart));
         dy = dsub (Fin (py lineEnd)) (Fin (py lineStart));
         mag = dsqrt (dadd (dmul dx dx) (dmul dy dy))
     in if mag = Fin 0
        then dsqrt (dadd (dsquare (dsub (Fin (px p)) (Fin (px lineStart))))
                         (dsquare (dsub (Fin (py p)) (Fin (py lineStart)))))
        else
          (let u = ddiv (dadd (dmul (dsub (Fin (px p)) (Fin (px lineStart))) dx)
                              (dmul (dsub (Fin (py p)) (Fin (py lineStart))) dy))
                        (dmul mag mag);
               closestX = dadd (Fin (px lineStart)) (dmul u dx);
               closestY = dadd (Fin (py lineStart)) (dmul u dy)
           in dsqrt (dadd (dsquare (dsub (Fin (px p)) closestX))
                          (dsquare (dsub (Fin (py p)) closestY)))))"

text \<open>
  The body of the scan \<open>for (let i = 1; i < points.length - 1; i++)\<close> of
  \<open>douglasPeucker\<close>, on the pair \<open>(maxDist, maxIndex)\<close>.
\<close>

definition farthestStep :: "point list \<Rightarrow> nat \<Rightarrow> double \<times> nat \<Rightarrow> double \<times> nat" where
  "farthestStep points i acc =
    (let dist = calculateDistanceToLine (points ! i) (hd points) (last points)
     in if dgt dist (fst acc) then (dist, i) else acc)"

text \<open>The whole scan, started from \<open>maxDist = 0\<close>, \<open>maxIndex = 0\<close>.\<close>

definition farthest :: "point list \<Rightarrow> double \<times> nat" where
  "farthest points = fold (farthestStep points) [1 ..< length points - 1] (Fin 0, 0)"

lemma farthest_index_fold:
  "snd (fold (farthestStep points) is acc) \<in> insert (snd acc) (set is)"
proof (induction "is" arbitrary: acc)
  case Nil
  show ?case by simp
next
  case (Cons i "is")
  have "snd (farthestStep points i acc) = i \<or> snd (farthestStep points i acc) = snd acc"
    by (simp add: farthestStep_def Let_def)
  with Cons [of "farthestStep points i acc"] show ?case by auto
qed

lemma farthest_index_less:
  assumes "snd (farthest points) \<noteq> 0"
  shows "0 < snd (farthest points) \<and> Suc (snd (farthest points)) < length points"
proof -
  have "snd (farthest points) \<in> insert 0 (set [1 ..< length points - 1])"
    using farthest_index_fold [of points "[1 ..< length points - 1]" "(Fin 0, 0)"]
    by (simp add: farthest_def)
  with assms show ?thesis by auto
qed

text \<open>
  \<open>douglasPeucker(points, tolerance)\<close>. When the scan leaves \<open>maxIndex = 0\<close>
  while \<open>maxDist > tolerance\<close> (only possible for a negative tolerance), the
  call \<open>douglasPeucker(points.slice(maxIndex), tolerance)\<close> repeats the call
  that made it, and the JavaScript recursion never returns a value: this is the
  result \<open>None\<close>. \<open>left.slice(0, -1)\<close> is \<^const>\<open>butlast\<close>. The tolerance is a
  finite number.
\<close>

function douglasPeucker :: "point list \<Rightarrow> real \<Rightarrow> point list option" where
  "douglasPeucker points tolerance =
    (if length points < 3 then Some points
     else
       (let maxDist = fst (farthest points);
            maxIndex = snd (farthest points)
        in if dgt maxDist (Fin tolerance)
           then
             (if maxIndex = 0 then None
              else
                (case douglasPeucker (take (maxIndex + 1) points) tolerance of
                   None \<Rightarrow> None
                 | Some left \<Rightarrow>
                    (case douglasPeucker (drop maxIndex points) tolerance of
                       None \<Rightarrow> None
                     | Some right \<Rightarrow> Some (butlast left @ right))))
           else Some [hd points, last points]))"
  by pat_completeness auto
termination
proof (relation "measure (\<lambda>(points, tolerance). length points)")
  show "wf (measure (\<lambda>(points, tolerance). length points))" by simp
next
  fix points :: "point list" and tolerance :: real and maxDist maxIndex
  assume "maxIndex = snd (farthest points)" "maxIndex \<noteq> 0"
  then have "Suc maxIndex < length points"
    using farthest_index_less [of points] by simp
  then show "((take (maxIndex + 1) points, tolerance), points, tolerance)
      \<in> measure (\<lambda>(points, tolerance). length points)"
    by simp
next
  fix points :: "point list" and tolerance :: real and maxDist maxIndex left
  assume "maxIndex = snd (farthest points)" "maxIndex \<noteq> 0"
  then have "0 < maxIndex \<and> Suc maxIndex < length points"
    using farthest_index_less [of points] by simp
  then have "length points - maxIndex < length points"
    by arith
  then show "((drop maxIndex points, tolerance), points, tolerance)
      \<in> measure (\<lambda>(points, tolerance). length points)"
    by simp
qed

declare douglasPeucker.simps [simp del]

text \<open>\<open>simplifyPath(points, tolerance)\<close>.\<close>

definition simplifyPath :: "point list \<Rightarrow> real \<Rightarrow> point list option" where
  "simplifyPath points tolerance =
    (if length points < 3 then Some points else douglasPeucker points tolerance)"

subsection \<open>Termination and monotonicity of the simplifier\<close>

lemma farthest_fold_zero:
  assumes "0 \<notin> set is" "snd acc = 0 \<longrightarrow> fst acc = Fin 0"
  shows "snd (fold (farthestStep points) is acc) = 0 \<longrightarrow>
         fst (fold (farthestStep points) is acc) = Fin 0"
  using assms
proof (induction "is" arbitrary: acc)
  case Nil
  then show ?case by simp
next
  case (Cons i "is")
  have "snd (farthestStep points i acc) = 0 \<longrightarrow> fst (farthestStep points i acc) = Fin 0"
    using Cons.prems by (auto simp add: farthestStep_def Let_def)
  then show ?case
    using Cons.IH [of "farthestStep points i acc"] Cons.prems by simp
qed

lemma farthest_pos_index:
  assumes "dgt (fst (farthest points)) (Fin tolerance)" "0 \<le> tolerance"
  shows "snd (farthest points) \<noteq> 0"
proof
  assume "snd (farthest points) = 0"
  then have "fst (farthest points) = Fin 0"
    using farthest_fold_zero [of "[1 ..< length points - 1]" "(Fin 0, 0)" points]
    by (simp add: farthest_def)
  with assms show False by simp
qed

lemma douglasPeucker_total:
  "0 \<le> tolerance \<Longrightarrow> \<exists>r. douglasPeucker points tolerance = Some r"
proof (induction points tolerance rule: douglasPeucker.induct)
  case (1 points tolerance)
  show ?case
  proof (cases "length points < 3")
    case True
    then show ?thesis by (simp add: douglasPeucker.simps)
  next
    case long: False
    show ?thesis
    proof (cases "dgt (fst (farthest points)) (Fin tolerance)")
      case False
      with long show ?thesis by (simp add: douglasPeucker.simps [of points])
    next
      case True
      then have nz: "snd (farthest points) \<noteq> 0"
        using farthest_pos_index [of points] "1.prems" by simp
      obtain left where l: "douglasPeucker (take (snd (farthest points) + 1) points) tolerance = Some left"
        using "1.IH"(1) [OF long refl refl True nz] "1.prems" by blast
      obtain right where r: "douglasPeucker (drop (snd (farthest points)) points) tolerance = Some right"
        using "1.IH"(2) [OF long refl refl True nz l] "1.prems" by blast
      show ?thesis
        using long True nz l r by (simp add: douglasPeucker.simps [of points] Let_def)
    qed
  qed
qed

lemma douglasPeucker_length_ge2:
  "douglasPeucker points tolerance = Some r \<Longrightarrow> 2 \<le> length points \<Longrightarrow> 2 \<le> length r"
proof (induction points tolerance arbitrary: r rule: douglasPeucker.induct)
  case (1 points tolerance)
  show ?case
  proof (cases "length points < 3")
    case True
    then show ?thesis using "1.prems" by (simp add: douglasPeucker.simps)
  next
    case long: False
    show ?thesis
    proof (cases "dgt (fst (farthest points)) (Fin tolerance)")
      case False
      with long "1.prems" show ?thesis by (auto simp add: douglasPeucker.simps [of points])
    next
      case True
      from long True "1.prems"(1) have nz: "snd (farthest points) \<noteq> 0"
        by (auto simp add: douglasPeucker.simps [of points] Let_def split: if_splits)
      from long True nz "1.prems"(1) obtain left right where
        l: "douglasPeucker (take (snd (farthest points) + 1) points) tolerance = Some left" and
        rr: "douglasPeucker (drop (snd (farthest points)) points) tolerance = Some right" and
        r: "r = butlast left @ right"
        by (auto simp add: douglasPeucker.simps [of points] Let_def split: option.splits)
      have b: "0 < snd (farthest points) \<and> Suc (snd (farthest points)) < length points"
        using farthest_index_less [OF nz] .
      have "2 \<le> length points - snd (farthest points)"
        using b by arith
      then have "2 \<le> length right"
        using "1.IH"(2) [OF long refl refl True nz l rr] by simp
      then show ?thesis using r by simp
    qed
  qed
qed

lemma douglasPeucker_mono:
  "\<epsilon>1 < \<epsilon>2 \<Longrightarrow> douglasPeucker points \<epsilon>1 = Some r1 \<Longrightarrow> douglasPeucker points \<epsilon>2 = Some r2
    \<Longrightarrow> length r2 \<le> length r1"
proof (induction points \<epsilon>1 arbitrary: r1 r2 rule: douglasPeucker.induct)
  case (1 points tol)
  show ?case
  proof (cases "length points < 3")
    case True
    then show ?thesis using "1.prems" by (simp add: douglasPeucker.simps)
  next
    case long: False
    show ?thesis
    proof (cases "dgt (fst (farthest points)) (Fin \<epsilon>2)")
      case False
      then have "r2 = [hd points, last points]"
        using long "1.prems"(3) by (simp add: douglasPeucker.simps [of points])
      moreover have "2 \<le> length r1"
        using douglasPeucker_length_ge2 [OF "1.prems"(2)] long by simp
      ultimately show ?thesis by simp
    next
      case True
      then have True1: "dgt (fst (farthest points)) (Fin tol)"
        using "1.prems"(1) dgt_antimono [of _ \<epsilon>2 tol] by simp
      from long True "1.prems"(3) have nz: "snd (farthest points) \<noteq> 0"
        by (auto simp add: douglasPeucker.simps [of points] Let_def split: if_splits)
      from long True nz "1.prems"(3) obtain left2 right2 where
        l2: "douglasPeucker (take (snd (farthest points) + 1) points) \<epsilon>2 = Some left2" and
        rr2: "douglasPeucker (drop (snd (farthest points)) points) \<epsilon>2 = Some right2" and
        r2: "r2 = butlast left2 @ right2"
        by (auto simp add: douglasPeucker.simps [of points] Let_def split: option.splits)
      from long True1 nz "1.prems"(2) obtain left1 right1 where
        l1: "douglasPeucker (take (snd (farthest points) + 1) points) tol = Some left1" and
        rr1: "douglasPeucker (drop (snd (farthest points)) points) tol = Some right1" and
        r1: "r1 = butlast left1 @ right1"
        by (auto simp add: douglasPeucker.simps [of points] Let_def split: option.splits)
      have "length left2 \<le> length left1"
        using "1.IH"(1) [OF long refl refl True1 nz "1.prems"(1) l1 l2] .
      moreover have "length right2 \<le> length right1"
        using "1.IH"(2) [OF long refl refl True1 nz l1 "1.prems"(1) rr1 rr2] .
      ultimately show ?thesis using r1 r2 by simp
    qed
  qed
qed

subsection \<open>Zero tolerance\<close>

text \<open>
  The arguments of the calls of \<open>douglasPeucker\<close> that one call leads to, itself
  included, in the order of the calls.
\<close>

function calls :: "point list \<Rightarrow> real \<Rightarrow> point list list" where
  "calls points tolerance =
    points #
    (if length points < 3 then []
     else
       (let maxDist = fst (farthest points);
            maxIndex = snd (farthest points)
        in if dgt maxDist (Fin tolerance) \<and> maxIndex \<noteq> 0
           then calls (take (maxIndex + 1) points) tolerance @ calls (drop maxIndex points) tolerance
           else []))"
  by pat_completeness auto
termination
proof (relation "measure (\<lambda>(points, tolerance). length points)")
  show "wf (measure (\<lambda>(points, tolerance). length points))" by simp
next
  fix points :: "point list" and tolerance :: real and maxDist maxIndex
  assume "maxIndex = snd (farthest points)" "dgt maxDist (Fin tolerance) \<and> maxIndex \<noteq> 0"
  then have "Suc maxIndex < length points"
    using farthest_index_less [of points] by simp
  then show "((take (maxIndex + 1) points, tolerance), points, tolerance)
      \<in> measure (\<lambda>(points, tolerance). length points)"
    by simp
next
  fix points :: "point list" and tolerance :: real and maxDist maxIndex
  assume "maxIndex = snd (farthest points)" "dgt maxDist (Fin tolerance) \<and> maxIndex \<noteq> 0"
  then have "0 < maxIndex \<and> Suc maxIndex < length points"
    using farthest_index_less [of points] by simp
  then have "length points - maxIndex < length points"
    by arith
  then show "((drop maxIndex points, tolerance), points, tolerance)
      \<in> measure (\<lambda>(points, tolerance). length points)"
    by simp
qed

declare calls.simps [simp del]

text \<open>
  The result of \<open>douglasPeucker\<close> is never longer than its argument and keeps the
  first and the last point; it is the argument itself exactly when every call
  made on three or more points finds a point farther than the tolerance from the
  line through the end points.
\<close>

lemma butlast_take_Suc_drop:
  assumes "m < length S"
  shows "butlast (take (m + 1) S) @ drop m S = S"
proof -
  have "butlast (take (m + 1) S) = take m S"
    using assms by (simp add: butlast_take)
  then show ?thesis by simp
qed

lemma douglasPeucker_keeps:
  assumes "douglasPeucker points tolerance = Some r"
  shows "length r \<le> length points \<and>
         (points \<noteq> [] \<longrightarrow> r \<noteq> [] \<and> hd r = hd points \<and> last r = last points) \<and>
         (r = points \<longleftrightarrow> (\<forall>chain \<in> set (calls points tolerance). (length chain < 3 \<or> dgt (fst (farthest chain)) (Fin tolerance))))"
  using assms
proof (induction points tolerance arbitrary: r rule: douglasPeucker.induct)
  case (1 points tolerance)
  show ?case
  proof (cases "length points < 3")
    case True
    then have c: "calls points tolerance = [points]"
      by (simp add: calls.simps [of points])
    from True "1.prems" have "r = points"
      by (simp add: douglasPeucker.simps)
    then show ?thesis
      using True by (auto simp add: c)
  next
    case long: False
    show ?thesis
    proof (cases "dgt (fst (farthest points)) (Fin tolerance)")
      case False
      with long "1.prems" have r: "r = [hd points, last points]"
        by (simp add: douglasPeucker.simps [of points])
      have c: "calls points tolerance = [points]"
        using long False by (simp add: calls.simps [of points])
      have "length r = 2" using r by simp
      then have "r \<noteq> points" using long by auto
      then show ?thesis
        using r long False by (simp add: c)
    next
      case True
      let ?m = "snd (farthest points)"
      from long True "1.prems" have nz: "?m \<noteq> 0"
        by (auto simp add: douglasPeucker.simps [of points] Let_def split: if_splits)
      from long True nz "1.prems" obtain left right where
        l: "douglasPeucker (take (?m + 1) points) tolerance = Some left" and
        rr: "douglasPeucker (drop ?m points) tolerance = Some right" and
        r: "r = butlast left @ right"
        by (auto simp add: douglasPeucker.simps [of points] Let_def split: option.splits)
      have b: "0 < ?m \<and> Suc ?m < length points"
        using farthest_index_less [OF nz] .
      note ihl = "1.IH"(1) [OF long refl refl True nz l]
      note ihr = "1.IH"(2) [OF long refl refl True nz l rr]
      have lt: "length (take (?m + 1) points) = ?m + 1" and ld: "length (drop ?m points) = length points - ?m"
        using b by simp_all
      have ll: "length left \<le> ?m + 1" using ihl lt by simp
      have lr: "length right \<le> length points - ?m" using ihr ld by simp
      have l2: "2 \<le> length left"
        using douglasPeucker_length_ge2 [OF l] b by simp
      have "2 \<le> length points - ?m" using b by arith
      then have r2: "2 \<le> length right"
        using douglasPeucker_length_ge2 [OF rr] by simp
      have tne: "take (?m + 1) points \<noteq> []" and dne: "drop ?m points \<noteq> []"
        using b long by auto
      have hl: "hd left = hd points" and lastl: "last left = points ! ?m"
      proof -
        from ihl tne have "hd left = hd (take (?m + 1) points)" "last left = last (take (?m + 1) points)"
          by simp_all
        moreover have "last (take (?m + 1) points) = points ! ?m"
        proof -
          have "take (?m + 1) points = take ?m points @ [points ! ?m]"
            using b by (simp add: take_Suc_conv_app_nth)
          then show ?thesis by simp
        qed
        ultimately show "hd left = hd points" "last left = points ! ?m"
          by simp_all
      qed
      have lastr: "last right = last points"
        using ihr dne b by simp
      have lenr: "length r = length left - 1 + length right"
        using r by simp
      have len: "length r \<le> length points"
        using lenr ll lr b by arith
      have bl: "butlast left \<noteq> []"
        using l2 by (cases left rule: rev_cases) auto
      have ends: "r \<noteq> [] \<and> hd r = hd points \<and> last r = last points"
      proof -
        have "right \<noteq> []" using r2 by auto
        moreover have "hd (butlast left) = hd left"
          using l2 by (cases left) (auto simp: neq_Nil_conv)
        ultimately show ?thesis
          using r bl hl lastr by simp
      qed
      have c: "calls points tolerance =
          points # calls (take (?m + 1) points) tolerance @ calls (drop ?m points) tolerance"
        using long True nz by (simp add: calls.simps [of points] Let_def)
      have eq: "r = points \<longleftrightarrow> left = take (?m + 1) points \<and> right = drop ?m points"
      proof
        assume "left = take (?m + 1) points \<and> right = drop ?m points"
        then show "r = points"
          using r butlast_take_Suc_drop [of ?m points] b by simp
      next
        assume rp: "r = points"
        then have "length left - 1 + length right = length points"
          using lenr by simp
        then have "length left = ?m + 1"
          using ll lr l2 b by arith
        then have bm: "length (butlast left) = ?m" by simp
        have "butlast left = take ?m points"
          using rp r bm by (metis append_eq_conv_conj)
        moreover have right: "right = drop ?m points"
          using rp r bm by (metis append_eq_conv_conj)
        moreover have "left = butlast left @ [last left]"
          using l2 by (metis append_butlast_last_id length_0_conv not_numeral_le_zero)
        ultimately have "left = take ?m points @ [points ! ?m]"
          using lastl by simp
        then have "left = take (?m + 1) points"
          using b by (simp add: take_Suc_conv_app_nth)
        with right show "left = take (?m + 1) points \<and> right = drop ?m points" by simp
      qed
      have sp: "length points < 3 \<or> dgt (fst (farthest points)) (Fin tolerance)"
        using True by simp
      have "r = points \<longleftrightarrow> (\<forall>chain \<in> set (calls points tolerance). (length chain < 3 \<or> dgt (fst (farthest chain)) (Fin tolerance)))"
        using eq ihl ihr sp by (auto simp add: c)
      with len ends show ?thesis by simp
    qed
  qed
qed

subsection \<open>Three strokes at tolerance 0\<close>

text \<open>
  A triangle, three points on a horizontal line, three points on a diagonal, and a
  point \<open>2\<^sup>-\<^sup>6\<^sup>0\<^sup>0\<close> above the middle of a horizontal chord. On the diagonal the computed
  values are \<open>mag = \<surd>8\<close> rounded, \<open>mag * mag = 8 + 2\<^sup>-\<^sup>4\<^sup>9\<close>, \<open>u = 1/2 - 2\<^sup>-\<^sup>5\<^sup>3\<close> and
  a closest point \<open>(1 - 2\<^sup>-\<^sup>5\<^sup>2, 1 - 2\<^sup>-\<^sup>5\<^sup>2)\<close>: the computed distance of the middle point
  from the chord is positive although the three points are collinear. For the
  point above the chord the square of its height underflows to zero: the computed
  distance is zero although the three points are not collinear.
\<close>

lemma distance_apex: "calculateDistanceToLine (Point 1 1) (Point 0 0) (Point 2 0) = Fin 1"
  by (simp add: calculateDistanceToLine_def Let_def dsub_def dsquare_def)

lemma distance_middle: "calculateDistanceToLine (Point 1 0) (Point 0 0) (Point 2 0) = Fin 0"
  by (simp add: calculateDistanceToLine_def Let_def dsub_def dsquare_def)

lemma farthest_apex: "farthest [Point 0 0, Point 1 1, Point 2 0] = (Fin 1, 1)"
  by (simp add: farthest_def farthestStep_def distance_apex)

lemma farthest_middle: "farthest [Point 0 0, Point 1 0, Point 2 0] = (Fin 0, 0)"
  by (simp add: farthest_def farthestStep_def distance_middle)

lemma calls_apex:
  "calls [Point 0 0, Point 1 1, Point 2 0] 0 =
    [[Point 0 0, Point 1 1, Point 2 0], [Point 0 0, Point 1 1], [Point 1 1, Point 2 0]]"
  by (simp add: calls.simps farthest_apex)

lemma farthest_three:
  "farthest [a, b, c] =
    (if dgt (calculateDistanceToLine b a c) (Fin 0) then (calculateDistanceToLine b a c, 1)
     else (Fin 0, 0))"
  by (simp add: farthest_def farthestStep_def Let_def)

lemma sqrt_8_bounds:
  "12738103345051545 / 2 ^ 52 < sqrt 8" "sqrt 8 < 12738103345051547 / 2 ^ 52"
proof -
  show "12738103345051545 / 2 ^ 52 < sqrt 8"
    by (rule real_less_rsqrt) (simp add: power2_eq_square)
  show "sqrt 8 < 12738103345051547 / 2 ^ 52"
    by (rule real_less_lsqrt) (simp_all add: power2_eq_square)
qed

lemma round64_sqrt_8: "round64 (sqrt 8) = Fin (6369051672525773 / 2 ^ 51)"
proof -
  have "round64 (sqrt 8) = Fin (of_int 6369051672525773 * 2 powi (1 - 52))"
  proof (rule round64_near)
    show "2 powi 1 \<le> \<bar>sqrt 8\<bar>" using sqrt_8_bounds by simp
    show "\<bar>sqrt 8\<bar> < 2 powi (1 + 1)" using sqrt_8_bounds by simp
    have "sqrt 8 / 2 powi (1 - 52) = sqrt 8 * 2 ^ 51"
      by (simp add: power_int_minus field_simps)
    moreover have "6369051672525773 - 1 / 2 < sqrt 8 * 2 ^ 51" "sqrt 8 * 2 ^ 51 < 6369051672525773 + 1 / 2"
      using sqrt_8_bounds by simp_all
    ultimately show "\<bar>sqrt 8 / 2 powi (1 - 52) - of_int 6369051672525773\<bar> < 1 / 2"
      by (simp only: abs_less_iff of_int_numeral) argo
  qed simp_all
  then show ?thesis by (simp add: power_int_minus field_simps)
qed

lemma round64_square:
  "round64 (6369051672525773 / 2 ^ 51 * (6369051672525773 / 2 ^ 51)) = Fin (4503599627370497 / 2 ^ 49)"
proof -
  have "round64 (6369051672525773 / 2 ^ 51 * (6369051672525773 / 2 ^ 51)) =
      Fin (of_int 4503599627370497 * 2 powi (3 - 52))"
    by (rule round64_near) (simp_all add: power_int_minus)
  then show ?thesis by (simp add: power_int_minus field_simps)
qed

lemma round64_quotient:
  "round64 (4 / (4503599627370497 / 2 ^ 49)) = Fin (9007199254740990 / 2 ^ 54)"
proof -
  have "round64 (4 / (4503599627370497 / 2 ^ 49)) = Fin (of_int 9007199254740990 * 2 powi (- 2 - 52))"
    by (rule round64_near) (simp_all add: power_int_minus)
  then show ?thesis by (simp add: power_int_minus field_simps)
qed

lemma distance_diagonal:
  "dgt (calculateDistanceToLine (Point 1 1) (Point 0 0) (Point 2 2)) (Fin 0)"
proof -
  define G :: real where "G = 6369051672525773 / 2 ^ 51"
  define H :: real where "H = 4503599627370497 / 2 ^ 49"
  define U :: real where "U = 9007199254740990 / 2 ^ 54"
  define V :: real where "V = 9007199254740990 / 2 ^ 53"
  define W :: real where "W = 1 / 2 ^ 52"
  define X :: real where "X = 1 / 2 ^ 104"
  define Y :: real where "Y = 1 / 2 ^ 103"
  have mag: "round64 (sqrt 8) = Fin G"
    by (simp add: G_def round64_sqrt_8)
  have G0: "G \<noteq> 0" by (simp add: G_def)
  have sq: "round64 (G * G) = Fin H"
    unfolding G_def H_def by (rule round64_square)
  have qu: "round64 (4 / H) = Fin U"
    unfolding H_def U_def by (rule round64_quotient)
  have v: "round64 (U * 2) = Fin V"
    using round64_dyadic [of 9007199254740990 53] by (simp add: U_def V_def)
  have v': "round64 V = Fin V"
    using round64_dyadic [of 9007199254740990 53] by (simp add: V_def)
  have w: "round64 (1 - V) = Fin W"
    using round64_dyadic [of 1 52] by (simp add: V_def W_def)
  have x: "round64 (W * W) = Fin X"
    using round64_dyadic [of 1 104] by (simp add: W_def X_def)
  have H0: "H \<noteq> 0" by (simp add: H_def)
  have y: "round64 (2 * X) = Fin Y"
    using round64_dyadic [of 1 103] by (simp add: X_def Y_def)
  have Y0: "\<not> Y < 0" by (simp add: Y_def)
  have pos: "dgt (round64 (sqrt Y)) (Fin 0)"
  proof (rule round64_positive [of "- 52"])
    have "1 / 2 ^ 52 \<le> sqrt Y"
      by (rule real_le_rsqrt) (simp add: Y_def power2_eq_square)
    then show "2 powi (- 52) \<le> sqrt Y"
      by (simp add: power_int_minus field_simps)
    have "sqrt Y < 1 / 2 ^ 51"
      by (rule real_less_lsqrt) (simp_all add: Y_def power2_eq_square)
    then show "sqrt Y < 2 powi (- 52 + 1)"
      by (simp add: power_int_minus field_simps)
  qed simp
  show ?thesis
    by (simp add: calculateDistanceToLine_def Let_def dsub_def dsquare_def
        mag G0 H0 sq qu v v' w x y Y0 pos)
qed

lemma simplifyPath_diagonal:
  "simplifyPath [Point 0 0, Point 1 1, Point 2 2] 0 = Some [Point 0 0, Point 1 1, Point 2 2]"
  by (simp add: simplifyPath_def douglasPeucker.simps farthest_three distance_diagonal)

lemma distance_underflow:
  "calculateDistanceToLine (Point 1 (1 / 2 ^ 600)) (Point 0 0) (Point 2 0) = Fin 0"
proof -
  define T :: real where "T = 1 / 2 ^ 600"
  have t: "round64 T = Fin T"
    using round64_dyadic [of 1 600] by (simp add: T_def)
  have "\<bar>T * T\<bar> \<le> 2 powi (- 1075)"
    by (simp add: T_def power_int_minus field_simps)
  then have tt: "round64 (T * T) = Fin 0"
    by (rule round64_tiny)
  have "calculateDistanceToLine (Point 1 T) (Point 0 0) (Point 2 0) = Fin 0"
    by (simp add: calculateDistanceToLine_def Let_def dsub_def dsquare_def t tt)
  then show ?thesis by (simp only: T_def)
qed

lemma simplifyPath_underflow:
  "simplifyPath [Point 0 0, Point 1 (1 / 2 ^ 600), Point 2 0] 0 = Some [Point 0 0, Point 2 0]"
  by (simp only: simplifyPath_def douglasPeucker.simps [of "[Point 0 0, Point 1 (1 / 2 ^ 600), Point 2 0]"]
        farthest_three distance_underflow) simp

subsection \<open>Claims about the simplifier\<close>

text \<open>
  Claim C5, as amended. With tolerance 0 the simplifier always returns, and it
  returns the stroke itself exactly when every call of \<open>douglasPeucker\<close> on three
  or more points finds an interior point whose computed distance from the line
  through the two end points is greater than 0; in particular it returns every
  stroke of fewer than three points. A call on three or more points whose interior
  points all have computed distance 0 returns only the two end points. The
  distances are the binary64 values that \<open>calculateDistanceToLine\<close> computes.
\<close>

theorem C5_simplifyPath_zero_tolerance:
  "(\<exists>r. simplifyPath S 0 = Some r) \<and>
   (length S < 3 \<longrightarrow> simplifyPath S 0 = Some S) \<and>
   (simplifyPath S 0 = Some S \<longleftrightarrow>
      (\<forall>chain \<in> set (calls S 0). 3 \<le> length chain \<longrightarrow> dgt (fst (farthest chain)) (Fin 0))) \<and>
   (\<forall>chain \<in> set (calls S 0).
      3 \<le> length chain \<and> \<not> dgt (fst (farthest chain)) (Fin 0) \<longrightarrow>
      douglasPeucker chain 0 = Some [hd chain, last chain])"
proof -
  have collapse: "\<forall>chain \<in> set (calls S 0).
      3 \<le> length chain \<and> \<not> dgt (fst (farthest chain)) (Fin 0) \<longrightarrow>
      douglasPeucker chain 0 = Some [hd chain, last chain]"
    by (simp add: douglasPeucker.simps)
  show ?thesis
  proof (cases "length S < 3")
    case True
    then have "calls S 0 = [S]" by (simp add: calls.simps [of S])
    with True collapse show ?thesis by (simp add: simplifyPath_def)
  next
    case False
    obtain r where r: "douglasPeucker S 0 = Some r"
      using douglasPeucker_total [of 0 S] by auto
    have "r = S \<longleftrightarrow>
        (\<forall>chain \<in> set (calls S 0). length chain < 3 \<or> dgt (fst (farthest chain)) (Fin 0))"
      using douglasPeucker_keeps [OF r] by simp
    then have "simplifyPath S 0 = Some S \<longleftrightarrow>
        (\<forall>chain \<in> set (calls S 0). 3 \<le> length chain \<longrightarrow> dgt (fst (farthest chain)) (Fin 0))"
      using False r by (auto simp add: simplifyPath_def)
    with False r collapse show ?thesis by (simp add: simplifyPath_def)
  qed
qed

theorem C5_simplifyPath_zero_tolerance_witness:
  "calls [Point 0 0, Point 1 1, Point 2 0] 0 =
     [[Point 0 0, Point 1 1, Point 2 0], [Point 0 0, Point 1 1], [Point 1 1, Point 2 0]] \<and>
   fst (farthest [Point 0 0, Point 1 1, Point 2 0]) = Fin 1 \<and>
   simplifyPath [Point 0 0, Point 1 1, Point 2 0] 0 = Some [Point 0 0, Point 1 1, Point 2 0] \<and>
   simplifyPath [Point 0 0, Point 1 1] 0 = Some [Point 0 0, Point 1 1]"
proof -
  have "simplifyPath [Point 0 0, Point 1 1, Point 2 0] 0 = Some [Point 0 0, Point 1 1, Point 2 0]"
    using C5_simplifyPath_zero_tolerance [of "[Point 0 0, Point 1 1, Point 2 0]"]
    by (simp add: calls_apex farthest_apex)
  moreover have "simplifyPath [Point 0 0, Point 1 1] 0 = Some [Point 0 0, Point 1 1]"
    using C5_simplifyPath_zero_tolerance [of "[Point 0 0, Point 1 1]"] by simp
  ultimately show ?thesis
    by (simp add: calls_apex farthest_apex)
qed

text \<open>
  The claim as stated fails on three points of a horizontal line: the middle
  point is at computed distance 0 from the chord, and the stroke collapses to its
  end points.
\<close>

theorem C5_simplifyPath_zero_tolerance_counterexample:
  "simplifyPath [Point 0 0, Point 1 0, Point 2 0] 0 = Some [Point 0 0, Point 2 0] \<and>
   simplifyPath [Point 0 0, Point 1 0, Point 2 0] 0 \<noteq> Some [Point 0 0, Point 1 0, Point 2 0]"
  by (simp add: simplifyPath_def douglasPeucker.simps farthest_middle)

text \<open>
  Claim C6. For tolerances \<open>\<epsilon>1 < \<epsilon>2\<close> the output at \<open>\<epsilon>2\<close> has no more
  points than the output at \<open>\<epsilon>1\<close>, whenever both calls return; and both calls
  return whenever \<open>0 \<le> \<epsilon>1\<close>, the domain of the tolerance.
\<close>

theorem C6_simplifyPath_monotone:
  assumes "\<epsilon>1 < \<epsilon>2"
  shows "(\<forall>r1 r2. simplifyPath S \<epsilon>1 = Some r1 \<and> simplifyPath S \<epsilon>2 = Some r2
            \<longrightarrow> length r2 \<le> length r1) \<and>
         (0 \<le> \<epsilon>1 \<longrightarrow> (\<exists>r1 r2. simplifyPath S \<epsilon>1 = Some r1 \<and> simplifyPath S \<epsilon>2 = Some r2))"
proof (cases "length S < 3")
  case True
  then show ?thesis by (simp add: simplifyPath_def)
next
  case False
  have "\<forall>r1 r2. douglasPeucker S \<epsilon>1 = Some r1 \<and> douglasPeucker S \<epsilon>2 = Some r2
            \<longrightarrow> length r2 \<le> length r1"
    using douglasPeucker_mono [OF assms] by blast
  moreover have "0 \<le> \<epsilon>1 \<longrightarrow> (\<exists>r1 r2. douglasPeucker S \<epsilon>1 = Some r1 \<and> douglasPeucker S \<epsilon>2 = Some r2)"
  proof
    assume a: "0 \<le> \<epsilon>1"
    then have b: "0 \<le> \<epsilon>2" using assms by simp
    from douglasPeucker_total [OF a, of S] douglasPeucker_total [OF b, of S]
    show "\<exists>r1 r2. douglasPeucker S \<epsilon>1 = Some r1 \<and> douglasPeucker S \<epsilon>2 = Some r2"
      by blast
  qed
  ultimately show ?thesis using False by (simp add: simplifyPath_def)
qed

theorem C6_simplifyPath_monotone_witness:
  "(0::real) < 2 \<and>
   simplifyPath [Point 0 0, Point 1 1, Point 2 0] 0 = Some [Point 0 0, Point 1 1, Point 2 0] \<and>
   simplifyPath [Point 0 0, Point 1 1, Point 2 0] 2 = Some [Point 0 0, Point 2 0] \<and>
   length [Point 0 0, Point 2 0] \<le> length [Point 0 0, Point 1 1, Point 2 0]"
proof -
  have h: "(0::real) < 2" by simp
  have e1: "simplifyPath [Point 0 0, Point 1 1, Point 2 0] 0 = Some [Point 0 0, Point 1 1, Point 2 0]"
    by (simp add: simplifyPath_def douglasPeucker.simps farthest_apex)
  have e2: "simplifyPath [Point 0 0, Point 1 1, Point 2 0] 2 = Some [Point 0 0, Point 2 0]"
    by (simp add: simplifyPath_def douglasPeucker.simps farthest_apex)
  have "length [Point 0 0, Point 2 0] \<le> length [Point 0 0, Point 1 1, Point 2 0]"
    by (rule C6_simplifyPath_monotone [OF h, THEN conjunct1, rule_format, OF conjI [OF e1 e2]])
  with h e1 e2 show ?thesis by blast
qed

section \<open>Undo history (saveToHistory, undo, redo)\<close>

text \<open>
  The part of the controller object the three operations read and write:
  \<open>this.strokes\<close>, \<open>this.history\<close> and \<open>this.historyIndex\<close>. The calls
  \<open>updateCharacterInFont()\<close> and \<open>render()\<close> made by \<open>undo\<close> and \<open>redo\<close> write the
  font dictionary, the storage and the canvas only. A deep copy
  \<open>JSON.parse(JSON.stringify(v))\<close> of a value is the value.
\<close>

record editor =
  strokes :: "stroke list"
  history :: "stroke list list"
  historyIndex :: int

datatype js_error = SyntaxError

text \<open>\<open>xs.slice(0, e)\<close>: a negative end counts from the end of the array.\<close>

definition sliceTo :: "'a list \<Rightarrow> int \<Rightarrow> 'a list" where
  "sliceTo xs e = (if e < 0 then take (nat (int (length xs) + e)) xs else take (nat e) xs)"

text \<open>
  \<open>JSON.parse(JSON.stringify(xs[i]))\<close>: outside the array \<open>xs[i]\<close> is
  \<open>undefined\<close>, and \<open>JSON.parse(undefined)\<close> throws a SyntaxError.
\<close>

definition copyAt :: "'a list \<Rightarrow> int \<Rightarrow> js_error + 'a" where
  "copyAt xs i = (if 0 \<le> i \<and> nat i < length xs then Inr (xs ! nat i) else Inl SyntaxError)"

definition saveToHistory :: "editor \<Rightarrow> editor" where
  "saveToHistory ed =
    (let sliced = sliceTo (history ed) (historyIndex ed + 1);
         pushed = sliced @ [strokes ed];
         idx = historyIndex ed + 1
     in if length pushed > 50
        then ed\<lparr>history := tl pushed, historyIndex := idx - 1\<rparr>
        else ed\<lparr>history := pushed, historyIndex := idx\<rparr>)"

definition undo :: "editor \<Rightarrow> js_error + editor" where
  "undo ed =
    (if historyIndex ed > 0
     then (case copyAt (history ed) (historyIndex ed - 1) of
             Inl e \<Rightarrow> Inl e
           | Inr s \<Rightarrow> Inr (ed\<lparr>historyIndex := historyIndex ed - 1, strokes := s\<rparr>))
     else Inr ed)"

definition redo :: "editor \<Rightarrow> js_error + editor" where
  "redo ed =
    (if historyIndex ed < int (length (history ed)) - 1
     then (case copyAt (history ed) (historyIndex ed + 1) of
             Inl e \<Rightarrow> Inl e
           | Inr s \<Rightarrow> Inr (ed\<lparr>historyIndex := historyIndex ed + 1, strokes := s\<rparr>))
     else Inr ed)"

text \<open>The undo-history invariant, and the cleared state.\<close>

definition historyInv :: "editor \<Rightarrow> bool" where
  "historyInv ed \<longleftrightarrow>
    0 \<le> historyIndex ed \<and> historyIndex ed \<le> int (length (history ed)) - 1 \<and>
    length (history ed) \<le> 50"

definition cleared :: "editor \<Rightarrow> bool" where
  "cleared ed \<longleftrightarrow> history ed = [] \<and> historyIndex ed = - 1"

subsection \<open>The operations keep the invariant\<close>

lemma saveToHistory_inv:
  assumes "historyInv ed \<or> cleared ed"
  shows "historyInv (saveToHistory ed)"
proof -
  from assms have r: "- 1 \<le> historyIndex ed \<and> historyIndex ed \<le> int (length (history ed)) - 1
      \<and> length (history ed) \<le> 50"
    by (auto simp: historyInv_def cleared_def)
  then have len: "length (sliceTo (history ed) (historyIndex ed + 1)) = nat (historyIndex ed + 1)"
    by (auto simp add: sliceTo_def min_def)
  show ?thesis
    using r len by (auto simp: saveToHistory_def Let_def historyInv_def)
qed

lemma undo_inv:
  assumes "historyInv ed"
  shows "\<exists>ed'. undo ed = Inr ed' \<and> historyInv ed' \<and> history ed' = history ed \<and>
      (if historyIndex ed = 0 then ed' = ed
       else historyIndex ed' = historyIndex ed - 1 \<and>
            strokes ed' = history ed' ! nat (historyIndex ed'))"
  using assms by (auto simp: undo_def copyAt_def historyInv_def)

lemma redo_inv:
  assumes "historyInv ed"
  shows "\<exists>ed'. redo ed = Inr ed' \<and> historyInv ed' \<and> history ed' = history ed \<and>
      (if historyIndex ed = int (length (history ed)) - 1 then ed' = ed
       else historyIndex ed' = historyIndex ed + 1 \<and>
            strokes ed' = history ed' ! nat (historyIndex ed'))"
  using assms by (auto simp: redo_def copyAt_def historyInv_def)

lemma cleared_noop: "cleared ed \<Longrightarrow> undo ed = Inr ed \<and> redo ed = Inr ed"
  by (simp add: cleared_def undo_def redo_def)

text \<open>
  Claim C10, as amended. \<open>saveToHistory\<close> establishes the invariant
  \<open>0 \<le> historyIndex \<le> history.length - 1\<close>, \<open>history.length \<le> 50\<close> from every
  state that satisfies it and from the cleared state; \<open>undo\<close> and \<open>redo\<close> return
  normally from every state that satisfies the invariant and keep the invariant
  and the history; \<open>undo\<close> changes nothing when \<open>historyIndex\<close> is 0 and \<open>redo\<close>
  changes nothing when \<open>historyIndex\<close> is \<open>history.length - 1\<close>; otherwise the index
  moves by one and the current strokes are the copy of \<open>history[historyIndex]\<close>.
  On the cleared state \<open>undo\<close> and \<open>redo\<close> change nothing: the state stays
  cleared, with \<open>historyIndex = -1\<close>, and only \<open>saveToHistory\<close> re-establishes the
  invariant.
\<close>

theorem C10_history_invariant:
  "(historyInv ed \<or> cleared ed \<longrightarrow> historyInv (saveToHistory ed)) \<and>
   (historyInv ed \<longrightarrow>
      (\<exists>ed'. undo ed = Inr ed' \<and> historyInv ed' \<and> history ed' = history ed \<and>
         (if historyIndex ed = 0 then ed' = ed
          else historyIndex ed' = historyIndex ed - 1 \<and>
               strokes ed' = history ed' ! nat (historyIndex ed'))) \<and>
      (\<exists>ed'. redo ed = Inr ed' \<and> historyInv ed' \<and> history ed' = history ed \<and>
         (if historyIndex ed = int (length (history ed)) - 1 then ed' = ed
          else historyIndex ed' = historyIndex ed + 1 \<and>
               strokes ed' = history ed' ! nat (historyIndex ed')))) \<and>
   (cleared ed \<longrightarrow> undo ed = Inr ed \<and> redo ed = Inr ed)"
  using saveToHistory_inv [of ed] undo_inv [of ed] redo_inv [of ed] cleared_noop [of ed]
  by blast

text \<open>An editor state in the middle of its history.\<close>

definition sampleEditor :: editor where
  "sampleEditor = \<lparr>strokes = [[Point 1 1]], history = [[], [[Point 1 1]], [[Point 2 2]]], historyIndex = 1\<rparr>"

theorem C10_history_invariant_witness:
  "historyInv sampleEditor \<and> historyInv (saveToHistory sampleEditor) \<and>
   saveToHistory sampleEditor = sampleEditor\<lparr>history := [[], [[Point 1 1]], [[Point 1 1]]], historyIndex := 2\<rparr> \<and>
   undo sampleEditor = Inr (sampleEditor\<lparr>historyIndex := 0, strokes := []\<rparr>) \<and>
   redo sampleEditor = Inr (sampleEditor\<lparr>historyIndex := 2, strokes := [[Point 2 2]]\<rparr>)"
proof -
  have h: "historyInv sampleEditor"
    by (simp add: historyInv_def sampleEditor_def)
  have "historyInv (saveToHistory sampleEditor)"
    using C10_history_invariant [of sampleEditor] h by blast
  moreover have "saveToHistory sampleEditor =
      sampleEditor\<lparr>history := [[], [[Point 1 1]], [[Point 1 1]]], historyIndex := 2\<rparr>"
    by (simp add: saveToHistory_def sampleEditor_def sliceTo_def Let_def)
  moreover have "undo sampleEditor = Inr (sampleEditor\<lparr>historyIndex := 0, strokes := []\<rparr>)"
    by (simp add: undo_def sampleEditor_def copyAt_def)
  moreover have "redo sampleEditor = Inr (sampleEditor\<lparr>historyIndex := 2, strokes := [[Point 2 2]]\<rparr>)"
    by (simp add: redo_def sampleEditor_def copyAt_def)
  ultimately show ?thesis using h by blast
qed

text \<open>
  The state \<open>clearCharacter\<close> leaves: no strokes, an empty history and
  \<open>historyIndex = -1\<close>. It does not satisfy the invariant, and \<open>undo\<close> and
  \<open>redo\<close> return it unchanged, so neither of them re-establishes the invariant
  from the cleared state.
\<close>

definition clearedEditor :: editor where
  "clearedEditor = \<lparr>strokes = [], history = [], historyIndex = - 1\<rparr>"

theorem C10_history_invariant_counterexample:
  "cleared clearedEditor \<and>
   undo clearedEditor = Inr clearedEditor \<and> redo clearedEditor = Inr clearedEditor \<and>
   \<not> historyInv clearedEditor \<and>
   historyInv (saveToHistory clearedEditor)"
  by (simp add: cleared_def clearedEditor_def undo_def redo_def historyInv_def
      saveToHistory_def sliceTo_def Let_def)

section \<open>Circle fitting (fitCircle)\<close>

text \<open>
  A loop \<open>for (const pt of points) sum += f(pt)\<close> started from \<open>sum = 0\<close>.
\<close>

definition sumOver :: "(point \<Rightarrow> real) \<Rightarrow> point list \<Rightarrow> real" where
  "sumOver f points = fold (\<lambda>pt acc. acc + f pt) points 0"

text \<open>
  The coefficients \<open>(A, B, C, D, E)\<close> that \<open>fitCircle\<close> computes from the nine
  power sums: the linear system is \<open>A cx + B cy = D\<close>, \<open>B cx + C cy = E\<close>.
\<close>

definition fitSystem :: "point list \<Rightarrow> real \<times> real \<times> real \<times> real \<times> real" where
  "fitSystem points =
    (let sumX = sumOver (\<lambda>pt. px pt) points;
         sumY = sumOver (\<lambda>pt. py pt) points;
         sumX2 = sumOver (\<lambda>pt. px pt * px pt) points;
         sumY2 = sumOver (\<lambda>pt. py pt * py pt) points;
         sumXY = sumOver (\<lambda>pt. px pt * py pt) points;
         sumX3 = sumOver (\<lambda>pt. (px pt * px pt) * px pt) points;
         sumY3 = sumOver (\<lambda>pt. (py pt * py pt) * py pt) points;
         sumX2Y = sumOver (\<lambda>pt. (px pt * px pt) * py pt) points;
         sumXY2 = sumOver (\<lambda>pt. px pt * (py pt * py pt)) points;
         n = real (length points);
         A = n * sumX2 - sumX * sumX;
         B = n * sumXY - sumX * sumY;
         C = n * sumY2 - sumY * sumY;
         D = 0.5 * (n * sumXY2 - sumX * sumY2 + n * sumX3 - sumX * sumX2);
         E = 0.5 * (n * sumY3 - sumY * sumY2 + n * sumX2Y - sumY * sumX2)
     in (A, B, C, D, E))"

text \<open>The determinant \<open>denominator = A * C - B * B\<close>.\<close>

definition denominator :: "point list \<Rightarrow> real" where
  "denominator points = (case fitSystem points of (A, B, C, D, E) \<Rightarrow> A * C - B * B)"

text \<open>The distance \<open>Math.sqrt((pt.x - cx) ** 2 + (pt.y - cy) ** 2)\<close>.\<close>

definition distTo :: "real \<Rightarrow> real \<Rightarrow> point \<Rightarrow> real" where
  "distTo cx cy pt = sqrt ((px pt - cx)\<^sup>2 + (py pt - cy)\<^sup>2)"

text \<open>The object \<open>{cx, cy, r}\<close> that \<open>fitCircle\<close> returns.\<close>

datatype circle = Circle (cx: real) (cy: real) (cr: real)

text \<open>\<open>fitCircle(points)\<close>; \<open>None\<close> is the result \<open>null\<close>.\<close>

definition fitCircle :: "point list \<Rightarrow> circle option" where
  "fitCircle points =
    (if length points < 3 then None
     else
       (case fitSystem points of (A, B, C, D, E) \<Rightarrow>
         (let n = real (length points);
              denominator = A * C - B * B
          in if \<bar>denominator\<bar> < 1 / 10 ^ 10 then None
             else
               (let cx = (D * C - B * E) / denominator;
                    cy = (A * E - B * D) / denominator;
                    sumR = sumOver (distTo cx cy) points;
                    r = sumR / n
                in Some (Circle cx cy r)))))"

subsection \<open>What the fitter returns\<close>







section \<open>Arc detection (isCollinear, isClockwise, fitArc, detectArcs)\<close>

text \<open>\<open>xs.slice(a, b)\<close> for indices \<open>0 \<le> a\<close> and \<open>0 \<le> b\<close>.\<close>

definition slice :: "'a list \<Rightarrow> nat \<Rightarrow> nat \<Rightarrow> 'a list" where
  "slice xs a b = take (b - a) (drop a xs)"

text \<open>
  The direction test of \<open>isCollinear\<close> at index \<open>i\<close>: the two consecutive
  segments are both at least 0.1 long and the dot product of their unit
  directions is below 0.95 in magnitude.
\<close>

definition cornerAt :: "point list \<Rightarrow> nat \<Rightarrow> bool" where
  "cornerAt points i =
    (let p1 = points ! i;
         p2 = points ! (i + 1);
         p3 = points ! (i + 2);
         dx1 = px p2 - px p1;
         dy1 = py p2 - py p1;
         dx2 = px p3 - px p2;
         dy2 = py p3 - py p2;
         len1 = sqrt (dx1 * dx1 + dy1 * dy1);
         len2 = sqrt (dx2 * dx2 + dy2 * dy2)
     in if len1 < 0.1 \<or> len2 < 0.1 then False
        else
          (let dir1x = dx1 / len1;
               dir1y = dy1 / len1;
               dir2x = dx2 / len2;
               dir2y = dy2 / len2;
               dotProduct = dir1x * dir2x + dir1y * dir2y
           in \<bar>dotProduct\<bar> < 0.95))"

text \<open>The distance test of \<open>isCollinear\<close> at index \<open>i\<close>.\<close>

definition offLine :: "point list \<Rightarrow> real \<Rightarrow> nat \<Rightarrow> bool" where
  "offLine points tolerance i =
    (let startPt = hd points;
         endPt = last points;
         dx = px endPt - px startPt;
         dy = py endPt - py startPt;
         lineLength = sqrt (dx * dx + dy * dy);
         pt = points ! i;
         distance = \<bar>(dy * px pt - dx * py pt + px endPt * py startPt - py endPt * px startPt)
                      / lineLength\<bar>
     in distance > tolerance)"

text \<open>\<open>isCollinear(points, tolerance)\<close>: each loop returns \<open>false\<close> at the first
  index where its test holds.\<close>

definition isCollinear :: "point list \<Rightarrow> real \<Rightarrow> bool" where
  "isCollinear points tolerance =
    (if length points < 3 then True
     else
       (let startPt = hd points;
            endPt = last points;
            dx = px endPt - px startPt;
            dy = py endPt - py startPt;
            lineLength = sqrt (dx * dx + dy * dy)
        in if lineLength < 0.1 then True
           else if list_ex (offLine points tolerance) [1 ..< length points - 1] then False
           else if list_ex (cornerAt points) [0 ..< length points - 2] then False
           else True))"

text \<open>
  \<open>Math.atan2(y, x)\<close> on real numbers (there is no negative zero): the angle
  of the point \<open>(x, y)\<close> in \<open>(-\<pi>, \<pi>]\<close>, and 0 at the origin.
\<close>

definition atan2 :: "real \<Rightarrow> real \<Rightarrow> real" where
  "atan2 y x =
    (if x > 0 then arctan (y / x)
     else if x < 0 then (if y \<ge> 0 then arctan (y / x) + pi else arctan (y / x) - pi)
     else if y > 0 then pi / 2
     else if y < 0 then - pi / 2
     else 0)"

text \<open>The loop \<open>while (a > Math.PI) a -= 2 * Math.PI\<close>.\<close>

function normalizeDown :: "real \<Rightarrow> real" where
  "normalizeDown a = (if a > pi then normalizeDown (a - 2 * pi) else a)"
  by pat_completeness auto
termination
proof (relation "measure (\<lambda>a. nat \<lceil>a / (2 * pi)\<rceil>)")
  show "wf (measure (\<lambda>a. nat \<lceil>a / (2 * pi)\<rceil>))" by simp
next
  fix a :: real
  assume a: "pi < a"
  have "(a - 2 * pi) / (2 * pi) = a / (2 * pi) - 1"
    by (simp add: diff_divide_distrib)
  then have c: "\<lceil>(a - 2 * pi) / (2 * pi)\<rceil> = \<lceil>a / (2 * pi)\<rceil> - 1"
    by simp
  have "0 < a" using a pi_gt_zero by linarith
  then have "0 < a / (2 * pi)" by simp
  then have "0 < \<lceil>a / (2 * pi)\<rceil>" by (simp only: zero_less_ceiling)
  with c show "(a - 2 * pi, a) \<in> measure (\<lambda>a. nat \<lceil>a / (2 * pi)\<rceil>)"
    by simp
qed

text \<open>The loop \<open>while (a < -Math.PI) a += 2 * Math.PI\<close>.\<close>

function normalizeUp :: "real \<Rightarrow> real" where
  "normalizeUp a = (if a < - pi then normalizeUp (a + 2 * pi) else a)"
  by pat_completeness auto
termination
proof (relation "measure (\<lambda>a. nat \<lceil>(- a) / (2 * pi)\<rceil>)")
  show "wf (measure (\<lambda>a. nat \<lceil>(- a) / (2 * pi)\<rceil>))" by simp
next
  fix a :: real
  assume a: "a < - pi"
  have "(- (a + 2 * pi)) / (2 * pi) = (- a) / (2 * pi) - 1"
    by (simp add: field_simps)
  then have c: "\<lceil>(- (a + 2 * pi)) / (2 * pi)\<rceil> = \<lceil>(- a) / (2 * pi)\<rceil> - 1"
    by (simp only: ceiling_diff_one)
  have "0 < - a" using a pi_gt_zero by linarith
  then have "0 < (- a) / (2 * pi)" by (simp only: zero_less_divide_iff) simp
  then have pos: "0 < \<lceil>(- a) / (2 * pi)\<rceil>" by (simp only: zero_less_ceiling)
  show "(a + 2 * pi, a) \<in> measure (\<lambda>a. nat \<lceil>(- a) / (2 * pi)\<rceil>)"
    unfolding in_measure c using pos by linarith
qed

declare normalizeDown.simps [simp del] normalizeUp.simps [simp del]

text \<open>Both loops in sequence: the comment \<open>// Normalize to [-PI, PI]\<close>.\<close>

definition normalizeAngle :: "real \<Rightarrow> real" where
  "normalizeAngle a = normalizeUp (normalizeDown a)"

text \<open>\<open>isClockwise(points, circle)\<close>.\<close>

definition isClockwise :: "point list \<Rightarrow> circle \<Rightarrow> bool" where
  "isClockwise points circle =
    (if length points < 2 then False
     else
       (let startPt = hd points;
            mid = points ! (length points div 2);
            angleStart = atan2 (py startPt - cy circle) (px startPt - cx circle);
            angleMid = atan2 (py mid - cy circle) (px mid - cx circle);
            midRel = normalizeAngle (angleMid - angleStart)
        in midRel < 0))"

text \<open>
  The angle that \<open>fitArc\<close> computes between the start and the end point about the
  fitted centre, normalised, and the chord length between the two points.
\<close>

definition arcAngle :: "point \<Rightarrow> point \<Rightarrow> point \<Rightarrow> real" where
  "arcAngle centre startPt endPt =
    (let angleStart = atan2 (py startPt - py centre) (px startPt - px centre);
         angleEnd = atan2 (py endPt - py centre) (px endPt - px centre)
     in normalizeAngle (angleEnd - angleStart))"

definition chordLength :: "point \<Rightarrow> point \<Rightarrow> real" where
  "chordLength startPt endPt =
    (let dx = px endPt - px startPt; dy = py endPt - py startPt in sqrt (dx * dx + dy * dy))"

text \<open>The object \<open>{endIndex, center, radius, clockwise}\<close> that \<open>fitArc\<close> returns.\<close>

datatype arcResult =
  ArcResult (endIndex: nat) (resCenter: point) (resRadius: real) (resClockwise: bool)

text \<open>
  The body of the loop of \<open>fitArc\<close> for one candidate \<open>endIdx\<close>; \<open>None\<close> is
  \<open>continue\<close>. \<open>arcTolerance\<close> is the value of the arc-tolerance field.
\<close>

definition arcCandidate :: "stroke \<Rightarrow> nat \<Rightarrow> real \<Rightarrow> nat \<Rightarrow> arcResult option" where
  "arcCandidate stroke startIdx arcTolerance endIdx =
    (let points = slice stroke startIdx (endIdx + 1)
     in if isCollinear points arcTolerance then None
        else
          (case fitCircle points of
             None \<Rightarrow> None
           | Some circle \<Rightarrow>
               if cr circle < 0.5 \<or> cr circle > 50 then None
               else if list_ex (\<lambda>pt. \<bar>distTo (cx circle) (cy circle) pt - cr circle\<bar> > arcTolerance)
                         points
               then None
               else
                 (let startPt = hd points;
                      endPt = last points;
                      angle = arcAngle (Point (cx circle) (cy circle)) startPt endPt;
                      arcAngleDeg = \<bar>angle\<bar> * 180 / pi
                  in if arcAngleDeg < 20 then None
                     else
                       (let chord = chordLength startPt endPt;
                            arcLength = cr circle * \<bar>angle\<bar>;
                            arcToChordRatio = (if chord > 0 then arcLength / chord else 0)
                        in if arcToChordRatio < 1.05 then None
                           else Some (ArcResult endIdx (Point (cx circle) (cy circle)) (cr circle)
                                        (isClockwise points circle))))))"

text \<open>The candidates are tried in the order given; the first success is returned.\<close>

fun firstArc :: "stroke \<Rightarrow> nat \<Rightarrow> real \<Rightarrow> nat list \<Rightarrow> arcResult option" where
  "firstArc stroke startIdx arcTolerance [] = None"
| "firstArc stroke startIdx arcTolerance (endIdx # rest) =
    (case arcCandidate stroke startIdx arcTolerance endIdx of
       Some res \<Rightarrow> Some res
     | None \<Rightarrow> firstArc stroke startIdx arcTolerance rest)"

text \<open>
  \<open>fitArc(stroke, startIdx)\<close>: \<open>endIdx\<close> runs down from \<open>maxPoints - 1\<close> while
  \<open>endIdx > startIdx + 2\<close>.
\<close>

definition fitArc :: "stroke \<Rightarrow> nat \<Rightarrow> real \<Rightarrow> arcResult option" where
  "fitArc stroke startIdx arcTolerance =
    (let maxPoints = min (startIdx + 20) (length stroke)
     in firstArc stroke startIdx arcTolerance (rev [startIdx + 3 ..< maxPoints]))"

datatype segment =
  Line (linePoints: "point list")
| Arc (arcStart: point) (arcEnd: point) (arcCenter: point) (arcRadius: real) (arcClockwise: bool)

text \<open>
  One iteration of the loop of \<open>detectArcs\<close> at index \<open>i\<close>: the segment pushed
  and the next value of \<open>i\<close>.
\<close>

definition detectStep :: "stroke \<Rightarrow> real \<Rightarrow> nat \<Rightarrow> segment \<times> nat" where
  "detectStep stroke arcTolerance i =
    (let lineStep =
           (let lineEnd = min (i + 1) (length stroke - 1)
            in (Line (slice stroke i (lineEnd + 1)), if i = lineEnd then i + 1 else lineEnd))
     in case fitArc stroke i arcTolerance of
          None \<Rightarrow> lineStep
        | Some res \<Rightarrow>
            if endIndex res - i \<ge> 3
            then (Arc (stroke ! i) (stroke ! endIndex res) (resCenter res) (resRadius res)
                    (resClockwise res),
                  endIndex res)
            else lineStep)"

lemma detectStep_advance:
  assumes "i < length stroke"
  shows "i < snd (detectStep stroke arcTolerance i)"
  using assms by (auto simp: detectStep_def Let_def min_def split: option.splits)

text \<open>The loop \<open>while (i < stroke.length)\<close> of \<open>detectArcs\<close>.\<close>

function detectLoop :: "stroke \<Rightarrow> real \<Rightarrow> nat \<Rightarrow> segment list" where
  "detectLoop stroke arcTolerance i =
    (if i < length stroke
     then fst (detectStep stroke arcTolerance i)
            # detectLoop stroke arcTolerance (snd (detectStep stroke arcTolerance i))
     else [])"
  by pat_completeness auto
termination
proof (relation "measure (\<lambda>(stroke, arcTolerance, i). length stroke - i)")
  show "wf (measure (\<lambda>(stroke, arcTolerance, i). length stroke - i))" by simp
next
  fix stroke :: stroke and arcTolerance :: real and i :: nat
  assume "i < length stroke"
  then show "((stroke, arcTolerance, snd (detectStep stroke arcTolerance i)), stroke, arcTolerance, i)
      \<in> measure (\<lambda>(stroke, arcTolerance, i). length stroke - i)"
    using detectStep_advance [of i stroke arcTolerance] by simp
qed

declare detectLoop.simps [simp del]

text \<open>\<open>detectArcs(stroke)\<close>.\<close>

definition detectArcs :: "stroke \<Rightarrow> real \<Rightarrow> segment list" where
  "detectArcs stroke arcTolerance =
    (if length stroke < 5 then [Line stroke] else detectLoop stroke arcTolerance 0)"

subsection \<open>Properties of the arc detector\<close>

lemma detectStep_Arc:
  assumes "fst (detectStep stroke arcTolerance i) = Arc s e c r cw"
  shows "\<exists>res. fitArc stroke i arcTolerance = Some res \<and> i + 3 \<le> endIndex res \<and>
      snd (detectStep stroke arcTolerance i) = endIndex res \<and>
      s = stroke ! i \<and> e = stroke ! endIndex res \<and> c = resCenter res \<and> r = resRadius res \<and>
      cw = resClockwise res"
  using assms by (auto simp: detectStep_def Let_def split: option.splits if_splits)

lemma detectStep_Line:
  assumes "fst (detectStep stroke arcTolerance i) = Line pts" "i < length stroke"
  shows "snd (detectStep stroke arcTolerance i) = i + 1"
  using assms by (auto simp: detectStep_def Let_def min_def split: option.splits if_splits)

lemma detectLoop_length: "length (detectLoop stroke arcTolerance i) \<le> length stroke - i"
proof (induction stroke arcTolerance i rule: detectLoop.induct)
  case (1 stroke arcTolerance i)
  show ?case
  proof (cases "i < length stroke")
    case False
    then show ?thesis by (simp add: detectLoop.simps [of stroke arcTolerance i])
  next
    case True
    have "i < snd (detectStep stroke arcTolerance i)"
      using detectStep_advance [OF True] .
    with "1.IH" [OF True] True show ?thesis
      by (simp add: detectLoop.simps [of stroke arcTolerance i])
  qed
qed

subsection \<open>A stroke on a circle of radius 5\<close>

lemma normalizeAngle_id:
  assumes "- pi \<le> a" "a \<le> pi"
  shows "normalizeAngle a = a"
  using assms by (simp add: normalizeAngle_def normalizeDown.simps [of a] normalizeUp.simps [of a])

lemma pi_ge_three: "3 \<le> pi"
proof -
  have "sin (pi / 6) \<le> pi / 6"
    by (rule sin_x_le_x) simp
  then show ?thesis by (simp add: sin_30)
qed

lemma sqrt_25: "sqrt 25 = 5"
  by (rule real_sqrt_unique) simp_all

lemma sqrt_100: "sqrt 100 = 10"
  by (rule real_sqrt_unique) simp_all

text \<open>Five points of the circle of radius 5 about the origin.\<close>

definition halfCircle :: stroke where
  "halfCircle = [Point (- 5) 0, Point (- 3) 4, Point 0 5, Point 3 4, Point 5 0]"

lemma halfCircle_slice: "slice halfCircle 0 (4 + 1) = halfCircle"
  by (simp add: slice_def halfCircle_def)

lemma halfCircle_not_collinear: "\<not> isCollinear halfCircle (1 / 2)"
proof -
  have "offLine halfCircle (1 / 2) 1"
    by (simp add: offLine_def halfCircle_def sqrt_100)
  then have "list_ex (offLine halfCircle (1 / 2)) [1 ..< length halfCircle - 1]"
    by (simp add: halfCircle_def upt_rec)
  then show ?thesis
    unfolding isCollinear_def Let_def
    by (simp add: halfCircle_def sqrt_100)
qed

lemma halfCircle_system: "fitSystem halfCircle = (340, 0, 116, 0, 0)"
  by (simp add: fitSystem_def sumOver_def halfCircle_def)

lemma halfCircle_fit: "fitCircle halfCircle = Some (Circle 0 0 5)"
  by (simp add: fitCircle_def halfCircle_system)
     (simp add: halfCircle_def sumOver_def distTo_def sqrt_25)

lemma halfCircle_angle: "arcAngle (Point 0 0) (Point (- 5) 0) (Point 5 0) = - pi"
  by (simp add: arcAngle_def atan2_def normalizeAngle_id)

lemma halfCircle_chord: "chordLength (Point (- 5) 0) (Point 5 0) = 10"
  by (simp add: chordLength_def sqrt_100)

lemma halfCircle_clockwise: "isClockwise halfCircle (Circle 0 0 5)"
proof -
  have "normalizeAngle (pi / 2 - pi) = pi / 2 - pi"
    using pi_gt_zero by (intro normalizeAngle_id) linarith+
  then show ?thesis
    by (simp add: isClockwise_def halfCircle_def atan2_def)
qed

lemma halfCircle_candidate:
  "arcCandidate halfCircle 0 (1 / 2) 4 = Some (ArcResult 4 (Point 0 0) 5 True)"
proof -
  have fit: "\<not> list_ex (\<lambda>pt. \<bar>distTo 0 0 pt - 5\<bar> > 1 / 2) halfCircle"
    by (simp add: halfCircle_def distTo_def sqrt_25)
  have hd: "hd halfCircle = Point (- 5) 0" and last: "last halfCircle = Point 5 0"
    by (simp_all add: halfCircle_def)
  have ratio: "\<not> 5 * pi / 10 < 1.05"
    using pi_ge_three by simp
  show ?thesis
    unfolding arcCandidate_def
    using halfCircle_not_collinear fit ratio halfCircle_clockwise
    by (simp add: halfCircle_slice [simplified] halfCircle_fit hd last halfCircle_angle
        halfCircle_chord Let_def)
qed

lemma halfCircle_fitArc: "fitArc halfCircle 0 (1 / 2) = Some (ArcResult 4 (Point 0 0) 5 True)"
proof -
  have "rev [0 + 3 ..< min (0 + 20) (length halfCircle)] = [4, 3]"
    by (simp add: halfCircle_def upt_rec)
  then show ?thesis
    by (simp add: fitArc_def Let_def halfCircle_candidate)
qed

lemma halfCircle_step0:
  "detectStep halfCircle (1 / 2) 0 = (Arc (Point (- 5) 0) (Point 5 0) (Point 0 0) 5 True, 4)"
  by (simp add: detectStep_def halfCircle_fitArc) (simp add: halfCircle_def)

lemma halfCircle_step4:
  "detectStep halfCircle (1 / 2) 4 = (Line [Point 5 0], 5)"
proof -
  have "fitArc halfCircle 4 (1 / 2) = None"
    by (simp add: fitArc_def halfCircle_def)
  then show ?thesis
    by (simp add: detectStep_def) (simp add: halfCircle_def slice_def)
qed

lemma halfCircle_detectArcs:
  "detectArcs halfCircle (1 / 2) =
     [Arc (Point (- 5) 0) (Point 5 0) (Point 0 0) 5 True, Line [Point 5 0]]"
proof -
  have l: "length halfCircle = 5" by (simp add: halfCircle_def)
  have "detectLoop halfCircle (1 / 2) 5 = []"
    by (simp add: detectLoop.simps [of _ _ 5] l)
  then have "detectLoop halfCircle (1 / 2) 4 = [Line [Point 5 0]]"
    by (simp add: detectLoop.simps [of _ _ 4] l halfCircle_step4)
  then have "detectLoop halfCircle (1 / 2) 0 =
      [Arc (Point (- 5) 0) (Point 5 0) (Point 0 0) 5 True, Line [Point 5 0]]"
    by (simp add: detectLoop.simps [of _ _ 0] l halfCircle_step0)
  then show ?thesis by (simp add: detectArcs_def l)
qed

subsection \<open>Claims about the arc detector\<close>

text \<open>
  Claim C8. \<open>detectArcs\<close> terminates on every stroke: the loop is a total
  function, every iteration at an index inside the stroke strictly increases the
  index (an arc advances it by at least 3, a line by exactly 1), so the loop
  started at \<open>i0\<close> pushes at most \<open>length stroke - i0\<close> segments; and a stroke of
  fewer than 5 points is returned as the single line holding the whole stroke.
\<close>

theorem C8_detectArcs_progress:
  "(\<forall>i < length stroke.
      i < snd (detectStep stroke arcTolerance i) \<and>
      (case fst (detectStep stroke arcTolerance i) of
         Arc s e c r cw \<Rightarrow> i + 3 \<le> snd (detectStep stroke arcTolerance i)
       | Line pts \<Rightarrow> snd (detectStep stroke arcTolerance i) = i + 1)) \<and>
   length (detectLoop stroke arcTolerance i0) \<le> length stroke - i0 \<and>
   length (detectArcs stroke arcTolerance) \<le> max 1 (length stroke) \<and>
   (length stroke < 5 \<longrightarrow> detectArcs stroke arcTolerance = [Line stroke])"
proof -
  have step: "i < snd (detectStep stroke arcTolerance i) \<and>
      (case fst (detectStep stroke arcTolerance i) of
         Arc s e c r cw \<Rightarrow> i + 3 \<le> snd (detectStep stroke arcTolerance i)
       | Line pts \<Rightarrow> snd (detectStep stroke arcTolerance i) = i + 1)"
    if i: "i < length stroke" for i
  proof (cases "fst (detectStep stroke arcTolerance i)")
    case (Line pts)
    then show ?thesis
      using detectStep_Line [OF Line i] detectStep_advance [OF i] by simp
  next
    case (Arc s e c r cw)
    then show ?thesis
      using detectStep_Arc [OF Arc] detectStep_advance [OF i] by auto
  qed
  have len: "length (detectArcs stroke arcTolerance) \<le> max 1 (length stroke)"
    using detectLoop_length [of stroke arcTolerance 0] by (simp add: detectArcs_def)
  show ?thesis
    using step len detectLoop_length [of stroke arcTolerance i0]
    by (simp add: detectArcs_def)
qed

theorem C8_detectArcs_progress_witness:
  "(0 :: nat) < length halfCircle \<and> 4 < length halfCircle \<and>
   fst (detectStep halfCircle (1 / 2) 0) = Arc (Point (- 5) 0) (Point 5 0) (Point 0 0) 5 True \<and>
   0 + 3 \<le> snd (detectStep halfCircle (1 / 2) 0) \<and>
   fst (detectStep halfCircle (1 / 2) 4) = Line [Point 5 0] \<and>
   snd (detectStep halfCircle (1 / 2) 4) = 4 + 1 \<and>
   length (detectArcs halfCircle (1 / 2)) \<le> max 1 (length halfCircle) \<and>
   length [Point 0 0, Point 1 1] < 5 \<and>
   detectArcs [Point 0 0, Point 1 1] (1 / 2) = [Line [Point 0 0, Point 1 1]]"
proof -
  have l0: "(0 :: nat) < length halfCircle" and l4: "4 < length halfCircle"
    by (simp_all add: halfCircle_def)
  have f0: "fst (detectStep halfCircle (1 / 2) 0) = Arc (Point (- 5) 0) (Point 5 0) (Point 0 0) 5 True"
    by (simp add: halfCircle_step0)
  have f4: "fst (detectStep halfCircle (1 / 2) 4) = Line [Point 5 0]"
    by (simp add: halfCircle_step4)
  note step = C8_detectArcs_progress [of halfCircle "1 / 2" 0, THEN conjunct1, rule_format]
  have a0: "0 + 3 \<le> snd (detectStep halfCircle (1 / 2) 0)"
    using step [OF l0, THEN conjunct2] by (simp add: f0)
  have a4: "snd (detectStep halfCircle (1 / 2) 4) = 4 + 1"
    using step [OF l4, THEN conjunct2] by (simp add: f4)
  have len: "length (detectArcs halfCircle (1 / 2)) \<le> max 1 (length halfCircle)"
    by (rule C8_detectArcs_progress [of halfCircle "1 / 2" 0, THEN conjunct2, THEN conjunct2, THEN conjunct1])
  have s: "length [Point 0 0, Point 1 1] < 5" by simp
  have short: "detectArcs [Point 0 0, Point 1 1] (1 / 2) = [Line [Point 0 0, Point 1 1]]"
    by (rule C8_detectArcs_progress [of "[Point 0 0, Point 1 1]" "1 / 2" 0,
          THEN conjunct2, THEN conjunct2, THEN conjunct2, rule_format, OF s])
  from l0 l4 f0 a0 f4 a4 len s short show ?thesis by blast
qed

section \<open>Strings, glyphs and kerning rules\<close>

text \<open>
  A JavaScript string is the list of its UTF-16 code units; a character of a
  line (\<open>line[i]\<close>) is a string of length one. \<open>js\<close> writes an ASCII literal.
\<close>

type_synonym jsstring = "nat list"

definition js :: "string \<Rightarrow> jsstring" where
  "js s = map of_char s"

text \<open>
  \<open>s.split(sep)\<close> for a separator of one code unit: the pieces between the
  occurrences of the separator, empty pieces included.
\<close>

fun splitOn :: "nat \<Rightarrow> jsstring \<Rightarrow> jsstring list" where
  "splitOn sep [] = [[]]"
| "splitOn sep (c # cs) =
    (if c = sep then [] # splitOn sep cs
     else (c # hd (splitOn sep cs)) # tl (splitOn sep cs))"

text \<open>
  \<open>s.trim()\<close> removes leading and trailing white space and line terminators
  (the code units that ECMAScript lists as WhiteSpace and LineTerminator).
\<close>

definition isWhiteSpace :: "nat \<Rightarrow> bool" where
  "isWhiteSpace c \<longleftrightarrow>
    c \<in> {9, 10, 11, 12, 13, 32, 160, 5760, 8232, 8233, 8239, 8287, 12288, 65279}
    \<or> (8192 \<le> c \<and> c \<le> 8202)"

definition trim :: "jsstring \<Rightarrow> jsstring" where
  "trim s = rev (dropWhile isWhiteSpace (rev (dropWhile isWhiteSpace s)))"

text \<open>\<open>s.charCodeAt(0)\<close>; \<open>None\<close> is \<open>NaN\<close>, the result on the empty string.\<close>

definition charCodeAt0 :: "jsstring \<Rightarrow> nat option" where
  "charCodeAt0 s = (case s of [] \<Rightarrow> None | c # _ \<Rightarrow> Some c)"

text \<open>\<open>code >= start && code <= end\<close>: a comparison with \<open>NaN\<close> is false.\<close>

definition codeBetween :: "nat option \<Rightarrow> nat option \<Rightarrow> nat option \<Rightarrow> bool" where
  "codeBetween start endCode code =
    (case (start, endCode, code) of
       (Some s, Some e, Some c) \<Rightarrow> c \<ge> s \<and> c \<le> e
     | _ \<Rightarrow> False)"

text \<open>
  \<open>matchesUnicodePattern(char, pattern)\<close>. A pattern that is \<open>undefined\<close> is
  \<open>None\<close>; \<open>!pattern\<close> holds for \<open>undefined\<close> and for the empty string.
  44 is the comma and 45 the hyphen.
\<close>

definition matchesUnicodePattern :: "jsstring \<Rightarrow> jsstring option \<Rightarrow> bool" where
  "matchesUnicodePattern char pattern =
    (case pattern of
       None \<Rightarrow> False
     | Some p \<Rightarrow>
         if p = [] then False
         else if p = char then True
         else if 44 \<in> set p \<and> char \<in> set (map trim (splitOn 44 p)) then True
         else if 45 \<in> set p \<and> length p \<ge> 3 \<and> length (splitOn 45 p) = 2 \<and>
                 codeBetween (charCodeAt0 (splitOn 45 p ! 0)) (charCodeAt0 (splitOn 45 p ! 1))
                   (charCodeAt0 char)
         then True
         else False)"

text \<open>\<open>matchesGlyphPattern(glyphName, pattern)\<close>.\<close>

definition matchesGlyphPattern :: "jsstring \<Rightarrow> jsstring option \<Rightarrow> bool" where
  "matchesGlyphPattern glyphName pattern =
    (case pattern of
       None \<Rightarrow> False
     | Some p \<Rightarrow>
         if p = [] \<or> glyphName = [] then False
         else if p = glyphName then True
         else if 44 \<in> set p \<and> glyphName \<in> set (map trim (splitOn 44 p)) then True
         else False)"

text \<open>\<open>normalizeCharacter(char)\<close>: curly quotes, dashes and the ellipsis.\<close>

definition normalizeCharacter :: "jsstring \<Rightarrow> jsstring" where
  "normalizeCharacter char =
    (if char = [8217] then [39]
     else if char = [8216] then [39]
     else if char = [8220] then [34]
     else if char = [8221] then [34]
     else if char = [8211] then [45]
     else if char = [8212] then [45]
     else if char = [8230] then [46, 46, 46]
     else char)"

text \<open>
  An entry of the font dictionary \<open>this.font\<close>: the strokes, the bounding box
  \<open>bounds\<close>, and the optional fields \<open>horizAdvX\<close> and \<open>glyphName\<close>
  (\<open>None\<close> is \<open>undefined\<close>).
\<close>

record glyphBounds =
  minX :: real
  minY :: real
  maxX :: real
  maxY :: real
  width :: real
  height :: real

record charData =
  glyphStrokes :: "stroke list"
  bounds :: glyphBounds
  horizAdvX :: "real option"
  glyphName :: "jsstring option"

type_synonym font = "jsstring \<rightharpoonup> charData"

text \<open>\<open>getGlyphName(char)\<close>: \<open>charData?.glyphName || char\<close>.\<close>

definition getGlyphName :: "font \<Rightarrow> jsstring \<Rightarrow> jsstring" where
  "getGlyphName fnt char =
    (case fnt (normalizeCharacter char) of
       None \<Rightarrow> char
     | Some charData \<Rightarrow>
         (case glyphName charData of
            None \<Rightarrow> char
          | Some name \<Rightarrow> if name = [] then char else name))"

text \<open>
  A kerning rule \<open>{type, u1, u2, k}\<close> or \<open>{type, g1, g2, k}\<close>; a field the rule
  does not have is \<open>None\<close>.
\<close>

record kernRule =
  ruleType :: jsstring
  u1 :: "jsstring option"
  u2 :: "jsstring option"
  g1 :: "jsstring option"
  g2 :: "jsstring option"
  ruleK :: real

text \<open>The body of the loop of \<open>getKerningAdjustment\<close> for one rule.\<close>

definition kernStep :: "font \<Rightarrow> jsstring \<Rightarrow> jsstring \<Rightarrow> kernRule \<Rightarrow> real \<Rightarrow> real" where
  "kernStep fnt char1 char2 rule adjustment =
    (if ruleType rule = js ''unicode''
     then
       (if matchesUnicodePattern char1 (u1 rule) \<and> matchesUnicodePattern char2 (u2 rule)
        then adjustment + ruleK rule
        else adjustment)
     else if ruleType rule = js ''glyph''
     then
       (let glyph1 = getGlyphName fnt char1;
            glyph2 = getGlyphName fnt char2
        in if matchesGlyphPattern glyph1 (g1 rule) \<and> matchesGlyphPattern glyph2 (g2 rule)
           then adjustment + ruleK rule
           else adjustment)
     else adjustment)"

text \<open>\<open>getKerningAdjustment(char1, char2)\<close> over the rule list \<open>this.kerning\<close>.\<close>

definition getKerningAdjustment :: "font \<Rightarrow> kernRule list \<Rightarrow> jsstring \<Rightarrow> jsstring \<Rightarrow> real" where
  "getKerningAdjustment fnt kerning char1 char2 = fold (kernStep fnt char1 char2) kerning 0"

subsection \<open>The kerning lookup is a sum over the matching rules\<close>

text \<open>
  A rule matches a pair of characters when its first selector matches the first
  character and its second selector the second: by code unit patterns for a
  rule of type \<open>unicode\<close>, by glyph names for a rule of type \<open>glyph\<close>.
\<close>

definition ruleMatches :: "font \<Rightarrow> jsstring \<Rightarrow> jsstring \<Rightarrow> kernRule \<Rightarrow> bool" where
  "ruleMatches fnt c1 c2 rule \<longleftrightarrow>
    (ruleType rule = js ''unicode'' \<and>
       matchesUnicodePattern c1 (u1 rule) \<and> matchesUnicodePattern c2 (u2 rule)) \<or>
    (ruleType rule = js ''glyph'' \<and>
       matchesGlyphPattern (getGlyphName fnt c1) (g1 rule) \<and>
       matchesGlyphPattern (getGlyphName fnt c2) (g2 rule))"

text \<open>A comma-separated list of single code units: \<open>x1,x2,...,xn\<close>.\<close>

fun commaList :: "nat list \<Rightarrow> jsstring" where
  "commaList [] = []"
| "commaList [x] = [x]"
| "commaList (x # y # rest) = x # 44 # commaList (y # rest)"

text \<open>A rule of type \<open>unicode\<close> with the selectors \<open>a\<close> and \<open>b\<close>.\<close>

definition unicodeRule :: "jsstring \<Rightarrow> jsstring \<Rightarrow> real \<Rightarrow> kernRule" where
  "unicodeRule a b v =
    \<lparr>ruleType = js ''unicode'', u1 = Some a, u2 = Some b, g1 = None, g2 = None, ruleK = v\<rparr>"

lemma js_unicode_neq_glyph: "js ''unicode'' \<noteq> js ''glyph''"
  by (simp add: js_def)

lemma kernStep_ruleMatches:
  "kernStep fnt c1 c2 rule adjustment =
     (if ruleMatches fnt c1 c2 rule then adjustment + ruleK rule else adjustment)"
  using js_unicode_neq_glyph by (auto simp: kernStep_def ruleMatches_def Let_def)

lemma kern_fold:
  "fold (kernStep fnt c1 c2) kerning acc =
     acc + (\<Sum>rule\<leftarrow>filter (ruleMatches fnt c1 c2) kerning. ruleK rule)"
  by (induction kerning arbitrary: acc) (simp_all add: kernStep_ruleMatches)

lemma getKerningAdjustment_sum:
  "getKerningAdjustment fnt kerning c1 c2 =
     (\<Sum>rule\<leftarrow>filter (ruleMatches fnt c1 c2) kerning. ruleK rule)"
  by (simp add: getKerningAdjustment_def kern_fold)

lemma splitOn_nonempty: "splitOn sep s \<noteq> []"
  by (induction s) simp_all

lemma matchesUnicodePattern_iff:
  "matchesUnicodePattern c (Some p) \<longleftrightarrow>
     p \<noteq> [] \<and>
     (p = c \<or>
      (44 \<in> set p \<and> c \<in> set (map trim (splitOn 44 p))) \<or>
      (45 \<in> set p \<and> length p \<ge> 3 \<and>
         (\<exists>a b x y z. splitOn 45 p = [a, b] \<and> charCodeAt0 a = Some x \<and>
            charCodeAt0 b = Some y \<and> charCodeAt0 c = Some z \<and> x \<le> z \<and> z \<le> y)))"
proof -
  have range: "(length (splitOn 45 p) = 2 \<and>
        codeBetween (charCodeAt0 (splitOn 45 p ! 0)) (charCodeAt0 (splitOn 45 p ! 1)) (charCodeAt0 c))
      \<longleftrightarrow> (\<exists>a b x y z. splitOn 45 p = [a, b] \<and> charCodeAt0 a = Some x \<and>
            charCodeAt0 b = Some y \<and> charCodeAt0 c = Some z \<and> x \<le> z \<and> z \<le> y)"
    (is "?L \<longleftrightarrow> ?R")
  proof
    assume ?L
    then obtain a b where ab: "splitOn 45 p = [a, b]"
      by (cases "splitOn 45 p"; cases "tl (splitOn 45 p)") auto
    with \<open>?L\<close> show ?R
      by (auto simp: codeBetween_def split: option.splits)
  next
    assume ?R
    then show ?L by (auto simp: codeBetween_def)
  qed
  show ?thesis
    unfolding matchesUnicodePattern_def option.case
    using range by auto
qed

lemma matches_single: "matchesUnicodePattern [z] (Some [a]) \<longleftrightarrow> z = a"
  by (auto simp: matchesUnicodePattern_def trim_def)

lemma matches_range:
  assumes "a \<notin> {44, 45}" "b \<notin> {44, 45}"
  shows "matchesUnicodePattern [z] (Some [a, 45, b]) \<longleftrightarrow> a \<le> z \<and> z \<le> b"
  using assms
  by (auto simp: matchesUnicodePattern_def codeBetween_def charCodeAt0_def trim_def)

lemma splitOn_commaList:
  assumes "xs \<noteq> []" "44 \<notin> set xs"
  shows "splitOn 44 (commaList xs) = map (\<lambda>x. [x]) xs"
  using assms by (induction xs rule: commaList.induct) auto

lemma set_commaList: "set (commaList xs) \<subseteq> insert 44 (set xs)"
  by (induction xs rule: commaList.induct) auto

lemma comma_in_commaList: "2 \<le> length xs \<Longrightarrow> 44 \<in> set (commaList xs)"
  by (induction xs rule: commaList.induct) auto

lemma length_commaList_eq: "length (commaList xs) = 2 * length xs - 1"
  by (induction xs rule: commaList.induct) auto

lemma length_commaList: "2 \<le> length xs \<Longrightarrow> 3 \<le> length (commaList xs)"
  by (simp add: length_commaList_eq)

lemma trim_single: "\<not> isWhiteSpace x \<Longrightarrow> trim [x] = [x]"
  by (simp add: trim_def)

lemma matches_list:
  assumes len: "2 \<le> length xs"
    and ok: "\<forall>x \<in> set xs. x \<notin> {44, 45} \<and> \<not> isWhiteSpace x"
  shows "matchesUnicodePattern [z] (Some (commaList xs)) \<longleftrightarrow> z \<in> set xs"
proof -
  have ne: "xs \<noteq> []" using len by auto
  have nc: "44 \<notin> set xs" using ok by auto
  have nh: "45 \<notin> set (commaList xs)"
    using set_commaList [of xs] ok by auto
  have neq: "commaList xs \<noteq> [z]" "commaList xs \<noteq> []"
    using length_commaList [OF len] by auto
  have "map trim (splitOn 44 (commaList xs)) = map (\<lambda>x. [x]) xs"
    using ok by (simp add: splitOn_commaList [OF ne nc] trim_single)
  then have "[z] \<in> set (map trim (splitOn 44 (commaList xs))) \<longleftrightarrow> z \<in> set xs"
    by auto
  then show ?thesis
    using nh neq comma_in_commaList [OF len]
    by (simp add: matchesUnicodePattern_def)
qed

text \<open>
  Claim C2. The kerning lookup returns the sum of the adjustments of all rules
  that match the pair, in the order of the list. A code unit pattern matches a
  character exactly when it is non-empty and equals the character, or contains a
  comma and lists the character among its trimmed comma-separated pieces, or
  contains a hyphen, has at least three code units, splits at the hyphen into
  exactly two pieces, and the first code unit of the character lies between the
  first code units of the two pieces. For one character \<open>z\<close>: a single-character
  pattern matches iff it is \<open>z\<close>; a comma-separated list of characters (none a
  comma, a hyphen or white space) matches iff it lists \<open>z\<close>; a range \<open>a-b\<close>
  (end points neither comma nor hyphen) matches iff \<open>a \<le> z \<le> b\<close>. \<open>A-Z\<close> matches
  \<open>B\<close> and not \<open>1\<close>; \<open>A,V,W\<close> matches \<open>V\<close> and not \<open>B\<close>; two rules that match the
  same pair both contribute.
\<close>

theorem C2_kerning_sum:
  "getKerningAdjustment fnt kerning c1 c2 =
     (\<Sum>rule\<leftarrow>filter (ruleMatches fnt c1 c2) kerning. ruleK rule) \<and>
   (matchesUnicodePattern c (Some p) \<longleftrightarrow>
     p \<noteq> [] \<and>
     (p = c \<or>
      (44 \<in> set p \<and> c \<in> set (map trim (splitOn 44 p))) \<or>
      (45 \<in> set p \<and> length p \<ge> 3 \<and>
         (\<exists>a b x y z. splitOn 45 p = [a, b] \<and> charCodeAt0 a = Some x \<and>
            charCodeAt0 b = Some y \<and> charCodeAt0 c = Some z \<and> x \<le> z \<and> z \<le> y)))) \<and>
   (matchesUnicodePattern [z] (Some [a]) \<longleftrightarrow> z = a) \<and>
   (2 \<le> length xs \<and> (\<forall>x \<in> set xs. x \<notin> {44, 45} \<and> \<not> isWhiteSpace x) \<longrightarrow>
      (matchesUnicodePattern [z] (Some (commaList xs)) \<longleftrightarrow> z \<in> set xs)) \<and>
   (a \<notin> {44, 45} \<and> b \<notin> {44, 45} \<longrightarrow>
      (matchesUnicodePattern [z] (Some [a, 45, b]) \<longleftrightarrow> a \<le> z \<and> z \<le> b)) \<and>
   matchesUnicodePattern (js ''B'') (Some (js ''A-Z'')) \<and>
   \<not> matchesUnicodePattern (js ''1'') (Some (js ''A-Z'')) \<and>
   matchesUnicodePattern (js ''V'') (Some (js ''A,V,W'')) \<and>
   \<not> matchesUnicodePattern (js ''B'') (Some (js ''A,V,W'')) \<and>
   getKerningAdjustment fnt
     [unicodeRule (js ''A'') (js ''V'') v1, unicodeRule (js ''A-Z'') (js ''V,W'') v2]
     (js ''A'') (js ''V'') = v1 + v2"
proof -
  have ex1: "matchesUnicodePattern (js ''B'') (Some (js ''A-Z''))"
    and ex2: "\<not> matchesUnicodePattern (js ''1'') (Some (js ''A-Z''))"
    by (simp_all add: js_def matchesUnicodePattern_def codeBetween_def charCodeAt0_def)
  have ex3: "matchesUnicodePattern (js ''V'') (Some (js ''A,V,W''))"
    and ex4: "\<not> matchesUnicodePattern (js ''B'') (Some (js ''A,V,W''))"
    by (simp_all add: js_def matchesUnicodePattern_def codeBetween_def charCodeAt0_def
        trim_def isWhiteSpace_def)
  have m: "matchesUnicodePattern (js ''A'') (Some (js ''A''))"
    "matchesUnicodePattern (js ''V'') (Some (js ''V''))"
    "matchesUnicodePattern (js ''A'') (Some (js ''A-Z''))"
    "matchesUnicodePattern (js ''V'') (Some (js ''V,W''))"
    by (simp_all add: js_def matchesUnicodePattern_def codeBetween_def charCodeAt0_def
        trim_def isWhiteSpace_def)
  have two: "getKerningAdjustment fnt
     [unicodeRule (js ''A'') (js ''V'') v1, unicodeRule (js ''A-Z'') (js ''V,W'') v2]
     (js ''A'') (js ''V'') = v1 + v2"
    by (simp add: getKerningAdjustment_def kernStep_def unicodeRule_def m)
  show ?thesis
    using getKerningAdjustment_sum [of fnt kerning c1 c2] matchesUnicodePattern_iff [of c p]
      matches_single [of z a] matches_list [of xs z] matches_range [of a b z]
      ex1 ex2 ex3 ex4 two
    by blast
qed

theorem C2_kerning_sum_witness:
  "getKerningAdjustment Map.empty
     [unicodeRule (js ''A'') (js ''V'') 2, unicodeRule (js ''T'') (js ''o'') 5,
      unicodeRule (js ''A-Z'') (js ''V,W'') 3]
     (js ''A'') (js ''V'') = 5 \<and>
   (2 :: nat) \<le> length [65 :: nat, 86, 87] \<and>
   commaList [65, 86, 87] = js ''A,V,W'' \<and>
   matchesUnicodePattern [86] (Some (commaList [65, 86, 87])) \<and>
   \<not> matchesUnicodePattern [66] (Some (commaList [65, 86, 87])) \<and>
   matchesUnicodePattern [66] (Some [65, 45, 90]) \<and>
   \<not> matchesUnicodePattern [49] (Some [65, 45, 90])"
proof -
  let ?rules = "[unicodeRule (js ''A'') (js ''V'') 2, unicodeRule (js ''T'') (js ''o'') 5,
      unicodeRule (js ''A-Z'') (js ''V,W'') 3]"
  have f: "filter (ruleMatches Map.empty (js ''A'') (js ''V'')) ?rules =
      [unicodeRule (js ''A'') (js ''V'') 2, unicodeRule (js ''A-Z'') (js ''V,W'') 3]"
    by (simp add: ruleMatches_def unicodeRule_def js_def matchesUnicodePattern_def
        codeBetween_def charCodeAt0_def trim_def isWhiteSpace_def)
  have "getKerningAdjustment Map.empty ?rules (js ''A'') (js ''V'') =
      (\<Sum>rule\<leftarrow>filter (ruleMatches Map.empty (js ''A'') (js ''V'')) ?rules. ruleK rule)"
    by (rule C2_kerning_sum [THEN conjunct1])
  then have s: "getKerningAdjustment Map.empty ?rules (js ''A'') (js ''V'') = 5"
    by (simp only: f) (simp add: unicodeRule_def)
  have l: "(2 :: nat) \<le> length [65 :: nat, 86, 87]" by simp
  have ok: "\<forall>x \<in> set [65 :: nat, 86, 87]. x \<notin> {44, 45} \<and> \<not> isWhiteSpace x"
    by (simp add: isWhiteSpace_def)
  have c: "commaList [65, 86, 87] = js ''A,V,W''" by (simp add: js_def)
  note lst = C2_kerning_sum [THEN conjunct2, THEN conjunct2, THEN conjunct2, THEN conjunct1,
      rule_format, OF conjI [OF l ok]]
  have a: "matchesUnicodePattern [86] (Some (commaList [65, 86, 87]))"
    using lst [of 86] by simp
  have b: "\<not> matchesUnicodePattern [66] (Some (commaList [65, 86, 87]))"
    using lst [of 66] by simp
  have r: "(65 :: nat) \<notin> {44, 45} \<and> (90 :: nat) \<notin> {44, 45}" by simp
  note rng = C2_kerning_sum [THEN conjunct2, THEN conjunct2, THEN conjunct2, THEN conjunct2,
      THEN conjunct1, rule_format, OF r]
  have d: "matchesUnicodePattern [66] (Some [65, 45, 90])"
    using rng [of 66] by simp
  have e: "\<not> matchesUnicodePattern [49] (Some [65, 45, 90])"
    using rng [of 49] by simp
  from s l c a b d e show ?thesis by blast
qed

section \<open>Motion code for one segment (generateGCode)\<close>

text \<open>
  \<open>x.toFixed(3)\<close>: the sign and the number of thousandths nearest to \<open>|x|\<close> (the
  larger one at a tie). The pair determines the digits that \<open>toFixed\<close> prints.
\<close>

datatype fixed3 = Fixed3 (negative: bool) (thousandths: nat)

definition toFixed3 :: "real \<Rightarrow> fixed3" where
  "toFixed3 v = Fixed3 (v < 0) (nat \<lfloor>\<bar>v\<bar> * 1000 + 1 / 2\<rfloor>)"

text \<open>
  The lines that the segment loop passes to \<open>addGCode\<close>. A feed parameter
  \<open>F...\<close> is present (\<open>Some\<close>) or omitted (\<open>None\<close>).
\<close>

datatype arcCommand = G2 | G3

datatype gline =
  OtherLine jsstring
| RapidZ real
| RapidXY fixed3 fixed3 "real option"
| PlungeZ real "real option"
| LinearXY fixed3 fixed3 "real option"
| ArcMove arcCommand fixed3 fixed3 fixed3 fixed3 "real option"

text \<open>
  The variables of \<open>generateGCode\<close> that the segment loop reads and writes:
  the array \<open>gcode\<close>, \<open>lastGCodeLine\<close>, \<open>lastFeedRate\<close> (\<open>None\<close> is \<open>null\<close>),
  \<open>isFirstSegment\<close> and \<open>isAtSafeZ\<close>.
\<close>

record emitState =
  gcode :: "gline list"
  lastGCodeLine :: gline
  lastFeedRate :: "real option"
  isFirstSegment :: bool
  isAtSafeZ :: bool

text \<open>The emission parameters read from the form.\<close>

record emitConfig =
  feedRate :: real
  plungeRate :: real
  safeZ :: real
  engraveDepth :: real

text \<open>\<open>addGCode(line)\<close>: a line equal to the last one is dropped.\<close>

definition addGCode :: "gline \<Rightarrow> emitState \<Rightarrow> emitState" where
  "addGCode line st =
    (if line \<noteq> lastGCodeLine st
     then st\<lparr>gcode := gcode st @ [line], lastGCodeLine := line\<rparr>
     else st)"

text \<open>\<open>lastFeedRate !== rate ? ` F${rate}` : ''\<close>.\<close>

definition feedCodeFor :: "real \<Rightarrow> emitState \<Rightarrow> real option" where
  "feedCodeFor rate st = (if lastFeedRate st \<noteq> Some rate then Some rate else None)"

text \<open>
  The block run for the first point of a stroke: lift if needed, rapid move to
  \<open>(x, y)\<close>, plunge to the engraving depth.
\<close>

definition penDown :: "emitConfig \<Rightarrow> real \<Rightarrow> real \<Rightarrow> emitState \<Rightarrow> emitState" where
  "penDown cfg xv yv st =
    (let st1 = (if \<not> isAtSafeZ st
                then (addGCode (RapidZ (safeZ cfg)) st)\<lparr>lastFeedRate := None\<rparr>
                else st);
         st2 = (addGCode (RapidXY (toFixed3 xv) (toFixed3 yv) (feedCodeFor (feedRate cfg) st1)) st1)
                 \<lparr>lastFeedRate := Some (feedRate cfg)\<rparr>;
         st3 = (addGCode (PlungeZ (engraveDepth cfg) (feedCodeFor (plungeRate cfg) st2)) st2)
                 \<lparr>lastFeedRate := Some (plungeRate cfg)\<rparr>
     in st3\<lparr>isFirstSegment := False, isAtSafeZ := False\<rparr>)"

text \<open>
  The placement of a glyph: \<open>bounds.minX\<close>, \<open>scale\<close>, \<open>currentX\<close> and \<open>currentY\<close>;
  a canvas point \<open>p\<close> goes to \<open>((p.x - minX) * scale + currentX, currentY - p.y * scale)\<close>.
\<close>

record placement =
  boundsMinX :: real
  scale :: real
  currentX :: real
  currentY :: real

definition transformX :: "placement \<Rightarrow> point \<Rightarrow> real" where
  "transformX pl p = (px p - boundsMinX pl) * scale pl + currentX pl"

definition transformY :: "placement \<Rightarrow> point \<Rightarrow> real" where
  "transformY pl p = currentY pl - py p * scale pl"

text \<open>One point of a line segment, at index \<open>ptIdx\<close> of \<open>segment.points\<close>.\<close>

definition emitPoint :: "emitConfig \<Rightarrow> placement \<Rightarrow> point \<times> nat \<Rightarrow> emitState \<Rightarrow> emitState" where
  "emitPoint cfg pl pt st =
    (let xv = transformX pl (fst pt);
         yv = transformY pl (fst pt)
     in if isFirstSegment st \<and> snd pt = 0 then penDown cfg xv yv st
        else (addGCode (LinearXY (toFixed3 xv) (toFixed3 yv) (feedCodeFor (feedRate cfg) st)) st)
               \<lparr>lastFeedRate := Some (feedRate cfg)\<rparr>)"

text \<open>The body of \<open>segments.forEach(segment => ...)\<close>.\<close>

fun emitSegment :: "emitConfig \<Rightarrow> placement \<Rightarrow> segment \<Rightarrow> emitState \<Rightarrow> emitState" where
  "emitSegment cfg pl (Arc startPt endPt centrePt r cw) st =
    (let startX = transformX pl startPt;
         startY = transformY pl startPt;
         endX = transformX pl endPt;
         endY = transformY pl endPt;
         centerX = transformX pl centrePt;
         centerY = transformY pl centrePt;
         st1 = (if isFirstSegment st then penDown cfg startX startY st else st);
         i = centerX - startX;
         j = centerY - startY;
         gcode_cmd = (if cw then G3 else G2)
     in (addGCode (ArcMove gcode_cmd (toFixed3 endX) (toFixed3 endY) (toFixed3 i) (toFixed3 j)
                     (feedCodeFor (feedRate cfg) st1)) st1)
          \<lparr>lastFeedRate := Some (feedRate cfg)\<rparr>)"
| "emitSegment cfg pl (Line pts) st =
    fold (emitPoint cfg pl) (zip pts [0 ..< length pts]) st"

text \<open>A stroke: its segments, then the pen is lifted.\<close>

definition emitStroke :: "emitConfig \<Rightarrow> placement \<Rightarrow> real \<Rightarrow> stroke \<Rightarrow> emitState \<Rightarrow> emitState" where
  "emitStroke cfg pl arcTolerance strk st =
    (let st1 = fold (emitSegment cfg pl) (detectArcs strk arcTolerance) (st\<lparr>isFirstSegment := True\<rparr>)
     in (addGCode (RapidZ (safeZ cfg)) st1)\<lparr>lastFeedRate := None, isAtSafeZ := True\<rparr>)"

subsection \<open>The arc command\<close>

lemma addGCode_last: "lastGCodeLine (addGCode line st) = line"
  by (simp add: addGCode_def)

lemma addGCode_member:
  "lastGCodeLine st \<in> set (gcode st) \<Longrightarrow> line \<in> set (gcode (addGCode line st))"
  by (simp add: addGCode_def)

lemma addGCode_gcode:
  "gcode (addGCode line st) = (if line = lastGCodeLine st then gcode st else gcode st @ [line])"
  by (simp add: addGCode_def)

lemma penDown_last:
  "\<exists>fc. lastGCodeLine (penDown cfg xv yv st) = PlungeZ (engraveDepth cfg) fc"
  by (simp add: penDown_def Let_def addGCode_last)

lemma penDown_member:
  assumes "lastGCodeLine st \<in> set (gcode st)"
  shows "lastGCodeLine (penDown cfg xv yv st) \<in> set (gcode (penDown cfg xv yv st))"
  using assms by (simp add: penDown_def Let_def addGCode_def)


text \<open>
  Claim C9. For an arc segment the line passed to \<open>addGCode\<close> is a \<open>G3\<close> command
  when the clockwise flag of the segment is true and a \<open>G2\<close> command when it is
  false; its \<open>I\<close> and \<open>J\<close> parameters are the transformed centre minus the
  transformed start point (printed by \<open>toFixed(3)\<close>), and its \<open>X\<close> and \<open>Y\<close> the
  transformed end point. After the segment this line is \<open>lastGCodeLine\<close>; it is in
  the output whenever \<open>lastGCodeLine\<close> was (a line equal to the previous one is not
  repeated), and it is the last output line when the arc is the first segment of
  its stroke.
\<close>

theorem C9_arc_command:
  "\<exists>fc. lastGCodeLine (emitSegment cfg pl (Arc s e c r cw) st) =
          ArcMove (if cw then G3 else G2)
            (toFixed3 (transformX pl e)) (toFixed3 (transformY pl e))
            (toFixed3 (transformX pl c - transformX pl s))
            (toFixed3 (transformY pl c - transformY pl s)) fc \<and>
        (lastGCodeLine st \<in> set (gcode st) \<longrightarrow>
           lastGCodeLine (emitSegment cfg pl (Arc s e c r cw) st)
             \<in> set (gcode (emitSegment cfg pl (Arc s e c r cw) st))) \<and>
        (isFirstSegment st \<longrightarrow>
           last (gcode (emitSegment cfg pl (Arc s e c r cw) st)) =
             lastGCodeLine (emitSegment cfg pl (Arc s e c r cw) st))"
proof -
  define st1 where
    "st1 = (if isFirstSegment st then penDown cfg (transformX pl s) (transformY pl s) st else st)"
  define line where
    "line = ArcMove (if cw then G3 else G2)
            (toFixed3 (transformX pl e)) (toFixed3 (transformY pl e))
            (toFixed3 (transformX pl c - transformX pl s))
            (toFixed3 (transformY pl c - transformY pl s)) (feedCodeFor (feedRate cfg) st1)"
  have res: "emitSegment cfg pl (Arc s e c r cw) st =
      (addGCode line st1)\<lparr>lastFeedRate := Some (feedRate cfg)\<rparr>"
    unfolding line_def st1_def by (simp only: emitSegment.simps Let_def)
  have l: "lastGCodeLine (emitSegment cfg pl (Arc s e c r cw) st) = line"
    unfolding res by (simp add: addGCode_last)
  have m: "line \<in> set (gcode (emitSegment cfg pl (Arc s e c r cw) st))"
    if "lastGCodeLine st \<in> set (gcode st)"
  proof -
    have "lastGCodeLine st1 \<in> set (gcode st1)"
      using that penDown_member [of st cfg] by (simp add: st1_def)
    then show ?thesis unfolding res by (simp add: addGCode_member)
  qed
  have f: "last (gcode (emitSegment cfg pl (Arc s e c r cw) st)) = line"
    if "isFirstSegment st"
  proof -
    have "st1 = penDown cfg (transformX pl s) (transformY pl s) st"
      using that by (simp add: st1_def)
    then obtain fc where "lastGCodeLine st1 = PlungeZ (engraveDepth cfg) fc"
      using penDown_last [of cfg "transformX pl s" "transformY pl s" st] by auto
    then have "line \<noteq> lastGCodeLine st1" by (simp add: line_def)
    then show ?thesis unfolding res by (simp add: addGCode_gcode)
  qed
  have "lastGCodeLine (emitSegment cfg pl (Arc s e c r cw) st) = line \<and>
        (lastGCodeLine st \<in> set (gcode st) \<longrightarrow>
           lastGCodeLine (emitSegment cfg pl (Arc s e c r cw) st)
             \<in> set (gcode (emitSegment cfg pl (Arc s e c r cw) st))) \<and>
        (isFirstSegment st \<longrightarrow>
           last (gcode (emitSegment cfg pl (Arc s e c r cw) st)) =
             lastGCodeLine (emitSegment cfg pl (Arc s e c r cw) st))"
    using l m f by blast
  then show ?thesis
    unfolding line_def by (rule exI)
qed

text \<open>An arc emitted at the start of a stroke, at scale 1/10 on the baseline 10.\<close>

definition sampleConfig :: emitConfig where
  "sampleConfig = \<lparr>feedRate = 1000, plungeRate = 300, safeZ = 5, engraveDepth = - 1\<rparr>"

definition samplePlacement :: placement where
  "samplePlacement = \<lparr>boundsMinX = 0, scale = 1 / 10, currentX = 0, currentY = 10\<rparr>"

definition sampleState :: emitState where
  "sampleState = \<lparr>gcode = [RapidZ 5], lastGCodeLine = RapidZ 5, lastFeedRate = None,
                   isFirstSegment = True, isAtSafeZ = True\<rparr>"

lemma sample_emit:
  "gcode (emitSegment sampleConfig samplePlacement
            (Arc (Point (- 5) 0) (Point 5 0) (Point 0 0) 5 True) sampleState) =
     [RapidZ 5,
      RapidXY (Fixed3 True 500) (Fixed3 False 10000) (Some 1000),
      PlungeZ (- 1) (Some 300),
      ArcMove G3 (Fixed3 False 500) (Fixed3 False 10000) (Fixed3 False 500) (Fixed3 False 0)
        (Some 1000)]"
  by (simp add: sampleConfig_def samplePlacement_def sampleState_def Let_def penDown_def
      addGCode_def feedCodeFor_def transformX_def transformY_def toFixed3_def)


theorem C9_arc_command_witness:
  "lastGCodeLine sampleState \<in> set (gcode sampleState) \<and> isFirstSegment sampleState \<and>
   gcode (emitSegment sampleConfig samplePlacement
            (Arc (Point (- 5) 0) (Point 5 0) (Point 0 0) 5 True) sampleState) =
     [RapidZ 5,
      RapidXY (Fixed3 True 500) (Fixed3 False 10000) (Some 1000),
      PlungeZ (- 1) (Some 300),
      ArcMove G3 (Fixed3 False 500) (Fixed3 False 10000) (Fixed3 False 500) (Fixed3 False 0)
        (Some 1000)] \<and>
   lastGCodeLine (emitSegment sampleConfig samplePlacement
            (Arc (Point (- 5) 0) (Point 5 0) (Point 0 0) 5 True) sampleState) =
     ArcMove G3 (Fixed3 False 500) (Fixed3 False 10000) (Fixed3 False 500) (Fixed3 False 0)
        (Some 1000)"
proof -
  let ?st = "emitSegment sampleConfig samplePlacement
            (Arc (Point (- 5) 0) (Point 5 0) (Point 0 0) 5 True) sampleState"
  have m: "lastGCodeLine sampleState \<in> set (gcode sampleState)"
    and f: "isFirstSegment sampleState"
    by (simp_all add: sampleState_def)
  from C9_arc_command [of sampleConfig samplePlacement "Point (- 5) 0" "Point 5 0" "Point 0 0"
      5 True sampleState]
  have "isFirstSegment sampleState \<longrightarrow> last (gcode ?st) = lastGCodeLine ?st"
    by blast
  with f have "lastGCodeLine ?st = last (gcode ?st)" by simp
  also have "\<dots> = ArcMove G3 (Fixed3 False 500) (Fixed3 False 10000) (Fixed3 False 500)
      (Fixed3 False 0) (Some 1000)"
    by (simp only: sample_emit) simp
  finally show ?thesis using m f sample_emit by blast
qed

section \<open>Text layout (generateGCode, exportImage, exportSVG, exportDXF)\<close>

text \<open>
  The values the layout reads from the form and the canvas: the text, the
  numeric fields, the auto-fit check box, \<open>this.canvas.height\<close> as
  \<open>referenceHeight\<close>, and \<open>this.fontMetrics.ascent\<close> and \<open>descent\<close>.
\<close>

record layoutConfig =
  inputText :: jsstring
  outputSize :: real
  charSpacing :: real
  spaceWidth :: real
  lineGap :: real
  maxWidth :: real
  maxHeight :: real
  autoFit :: bool
  maxTextSize :: real
  referenceHeight :: real
  ascent :: real
  descent :: real

text \<open>\<open>(this.canvas.height * 0.7) / fontRange\<close>, the scale from font units to canvas pixels.\<close>

definition canvasScale :: "layoutConfig \<Rightarrow> real" where
  "canvasScale cfg = (referenceHeight cfg * 0.7) / (ascent cfg - descent cfg)"

subsection \<open>Word wrap\<close>

text \<open>
  The wrap loops of the exporters are the same text up to how a word and the
  space are measured. The state of the loop over the words of one input line is
  \<open>(wrappedLines, currentLine, currentWidth)\<close>; 32 is the space.
\<close>

type_synonym wrapState = "jsstring list \<times> jsstring \<times> real"

definition wrapWord :: "(jsstring \<Rightarrow> real) \<Rightarrow> real \<Rightarrow> real \<Rightarrow> jsstring \<Rightarrow> wrapState \<Rightarrow> wrapState" where
  "wrapWord widthOf spaceWidthTotal limit word st =
    (case st of (wrappedLines, currentLine, currentWidth) \<Rightarrow>
      (let wordWidth = widthOf word
       in if length currentLine > 0 \<and> currentWidth + spaceWidthTotal + wordWidth > limit
          then (wrappedLines @ [currentLine], word, wordWidth)
          else if length currentLine > 0
          then (wrappedLines, currentLine @ [32] @ word, currentWidth + (spaceWidthTotal + wordWidth))
          else (wrappedLines, word, wordWidth)))"

text \<open>One input line: its words are wrapped, then the remaining line is pushed.\<close>

definition wrapInputLine :: "(jsstring \<Rightarrow> real) \<Rightarrow> real \<Rightarrow> real \<Rightarrow> jsstring \<Rightarrow> jsstring list \<Rightarrow> jsstring list" where
  "wrapInputLine widthOf spaceWidthTotal limit inputLine wrappedLines =
    (case fold (wrapWord widthOf spaceWidthTotal limit) (splitOn 32 inputLine) (wrappedLines, [], 0) of
       (wrapped, currentLine, currentWidth) \<Rightarrow> wrapped @ [currentLine])"

definition wrapText :: "(jsstring \<Rightarrow> real) \<Rightarrow> real \<Rightarrow> real \<Rightarrow> jsstring list \<Rightarrow> jsstring list" where
  "wrapText widthOf spaceWidthTotal limit textLines =
    fold (wrapInputLine widthOf spaceWidthTotal limit) textLines []"

text \<open>\<open>text.split('\n')\<close>; 10 is the line feed.\<close>

definition inputLines :: "layoutConfig \<Rightarrow> jsstring list" where
  "inputLines cfg = splitOn 10 (inputText cfg)"

text \<open>
  The first wrap of \<open>generateGCode\<close>, at the configured output size: a word is
  measured character by character, through \<open>normalizeCharacter\<close>.
\<close>

definition gcodeCharWidth :: "layoutConfig \<Rightarrow> font \<Rightarrow> nat \<Rightarrow> real" where
  "gcodeCharWidth cfg fnt c =
    (let scale = outputSize cfg / referenceHeight cfg
     in case fnt (normalizeCharacter [c]) of
          Some charData \<Rightarrow>
            (let charWidthCanvas =
                   (case horizAdvX charData of
                      Some h \<Rightarrow> h * canvasScale cfg
                    | None \<Rightarrow> width (bounds charData));
                 charWidth = charWidthCanvas * scale
             in charWidth + charSpacing cfg)
        | None \<Rightarrow> outputSize cfg * 0.5 + charSpacing cfg)"

definition gcodeWordWidth :: "layoutConfig \<Rightarrow> font \<Rightarrow> jsstring \<Rightarrow> real" where
  "gcodeWordWidth cfg fnt word = fold (\<lambda>c wordWidth. wordWidth + gcodeCharWidth cfg fnt c) word 0"

definition gcodeSpaceWidthTotal :: "layoutConfig \<Rightarrow> font \<Rightarrow> real" where
  "gcodeSpaceWidthTotal cfg fnt =
    (let scale = outputSize cfg / referenceHeight cfg;
         spaceCharWidth =
           (case fnt [32] of
              Some spaceCharData \<Rightarrow>
                (case horizAdvX spaceCharData of
                   Some h \<Rightarrow> h * canvasScale cfg * scale
                 | None \<Rightarrow> spaceWidth cfg)
            | None \<Rightarrow> spaceWidth cfg)
     in spaceCharWidth + charSpacing cfg)"

definition gcodeWrap :: "layoutConfig \<Rightarrow> font \<Rightarrow> jsstring list" where
  "gcodeWrap cfg fnt =
    (if maxWidth cfg > 0
     then wrapText (gcodeWordWidth cfg fnt) (gcodeSpaceWidthTotal cfg fnt) (maxWidth cfg) (inputLines cfg)
     else inputLines cfg)"

text \<open>The first wrap of \<open>exportImage\<close>.\<close>

definition imageCharWidth :: "layoutConfig \<Rightarrow> font \<Rightarrow> nat \<Rightarrow> real" where
  "imageCharWidth cfg fnt c =
    (let scale = outputSize cfg / referenceHeight cfg;
         svgToCanvasScale = canvasScale cfg
     in case fnt (normalizeCharacter [c]) of
          Some charData \<Rightarrow>
            (case horizAdvX charData of
               Some h \<Rightarrow> h * svgToCanvasScale * scale + charSpacing cfg
             | None \<Rightarrow> width (bounds charData) * scale + charSpacing cfg)
        | None \<Rightarrow> outputSize cfg * 0.5 + charSpacing cfg)"

definition imageWordWidth :: "layoutConfig \<Rightarrow> font \<Rightarrow> jsstring \<Rightarrow> real" where
  "imageWordWidth cfg fnt word = fold (\<lambda>c wordWidth. wordWidth + imageCharWidth cfg fnt c) word 0"

definition imageSpaceWidthTotal :: "layoutConfig \<Rightarrow> font \<Rightarrow> real" where
  "imageSpaceWidthTotal cfg fnt =
    (let scale = outputSize cfg / referenceHeight cfg;
         svgToCanvasScale = canvasScale cfg
     in case fnt [32] of
          Some spaceCharData \<Rightarrow>
            (case horizAdvX spaceCharData of
               Some h \<Rightarrow> h * svgToCanvasScale * scale + charSpacing cfg
             | None \<Rightarrow> spaceWidth cfg + charSpacing cfg)
        | None \<Rightarrow> spaceWidth cfg + charSpacing cfg)"

definition imageWrap :: "layoutConfig \<Rightarrow> font \<Rightarrow> jsstring list" where
  "imageWrap cfg fnt =
    (if maxWidth cfg > 0
     then wrapText (imageWordWidth cfg fnt) (imageSpaceWidthTotal cfg fnt) (maxWidth cfg) (inputLines cfg)
     else inputLines cfg)"

subsection \<open>Auto-fit\<close>

text \<open>
  \<open>calculateDimensions(testSize)\<close>, the same text in \<open>generateGCode\<close> and
  \<open>exportImage\<close>. The re-wrap measures a word by \<open>bounds.width\<close> of the glyph
  found under the character itself; the line width is measured through
  \<open>normalizeCharacter\<close> and \<open>horizAdvX\<close>.
\<close>

definition testCharWidth :: "layoutConfig \<Rightarrow> font \<Rightarrow> real \<Rightarrow> nat \<Rightarrow> real" where
  "testCharWidth cfg fnt testSize c =
    (let testScale = testSize / referenceHeight cfg
     in case fnt [c] of
          Some charData \<Rightarrow> width (bounds charData) * testScale + charSpacing cfg
        | None \<Rightarrow> testSize * 0.5 + charSpacing cfg)"

definition testWordWidth :: "layoutConfig \<Rightarrow> font \<Rightarrow> real \<Rightarrow> jsstring \<Rightarrow> real" where
  "testWordWidth cfg fnt testSize word =
    fold (\<lambda>c wordWidth. wordWidth + testCharWidth cfg fnt testSize c) word 0"

definition testWrap :: "layoutConfig \<Rightarrow> font \<Rightarrow> real \<Rightarrow> jsstring list" where
  "testWrap cfg fnt testSize =
    (if maxWidth cfg > 0
     then wrapText (testWordWidth cfg fnt testSize) (spaceWidth cfg + charSpacing cfg) (maxWidth cfg)
            (inputLines cfg)
     else inputLines cfg)"

definition testLineCharWidth :: "layoutConfig \<Rightarrow> font \<Rightarrow> real \<Rightarrow> nat \<Rightarrow> real" where
  "testLineCharWidth cfg fnt testSize c =
    (let testScale = testSize / referenceHeight cfg
     in case fnt (normalizeCharacter [c]) of
          Some charData \<Rightarrow>
            (case horizAdvX charData of
               Some h \<Rightarrow> h * testScale + charSpacing cfg
             | None \<Rightarrow> width (bounds charData) * testScale + charSpacing cfg)
        | None \<Rightarrow>
            if [c] = [32]
            then (case fnt [32] of
                    Some spaceCharData \<Rightarrow>
                      (case horizAdvX spaceCharData of
                         Some h \<Rightarrow> h * testScale + charSpacing cfg
                       | None \<Rightarrow> spaceWidth cfg + charSpacing cfg)
                  | None \<Rightarrow> spaceWidth cfg + charSpacing cfg)
            else testSize * 0.5 + charSpacing cfg)"

definition testLineWidth :: "layoutConfig \<Rightarrow> font \<Rightarrow> real \<Rightarrow> jsstring \<Rightarrow> real" where
  "testLineWidth cfg fnt testSize line =
    fold (\<lambda>c lineWidth. lineWidth + testLineCharWidth cfg fnt testSize c) line 0"

text \<open>The total height: the first line, then every further line (blank lines count half).\<close>

definition totalHeightOf :: "real \<Rightarrow> real \<Rightarrow> jsstring list \<Rightarrow> real" where
  "totalHeightOf firstLine lineSpacing ls =
    fold (\<lambda>line totalHeight. totalHeight + (if length line = 0 then firstLine * 0.5 else lineSpacing))
      (tl ls) firstLine"

text \<open>The object \<open>{width, height, wrappedLines}\<close>.\<close>

record dimensions =
  dimWidth :: real
  dimHeight :: real
  dimWrappedLines :: "jsstring list"

definition calculateDimensions :: "layoutConfig \<Rightarrow> font \<Rightarrow> real \<Rightarrow> dimensions" where
  "calculateDimensions cfg fnt testSize =
    (let testLineSpacing = testSize + lineGap cfg;
         testWrappedLines = testWrap cfg fnt testSize;
         maxLineWidth = fold (\<lambda>line m. max m (testLineWidth cfg fnt testSize line)) testWrappedLines 0;
         totalHeight = totalHeightOf testSize testLineSpacing testWrappedLines
     in \<lparr>dimWidth = maxLineWidth, dimHeight = totalHeight, dimWrappedLines = testWrappedLines\<rparr>)"

text \<open>\<open>fitsWidth && fitsHeight\<close> for the dimensions at \<open>testSize\<close>.\<close>

definition fits :: "layoutConfig \<Rightarrow> font \<Rightarrow> real \<Rightarrow> bool" where
  "fits cfg fnt testSize =
    (let dims = calculateDimensions cfg fnt testSize;
         fitsWidth = (maxWidth cfg \<le> 0 \<or> dimWidth dims \<le> maxWidth cfg);
         fitsHeight = (maxHeight cfg \<le> 0 \<or> dimHeight dims \<le> maxHeight cfg)
     in fitsWidth \<and> fitsHeight)"

text \<open>
  The loop \<open>for (testSize = outputSize; testSize <= maxTextSize; testSize += 0.5)\<close>
  on the pair \<open>(bestSize, bestWrappedLines)\<close>; it stops at the first size that
  does not fit.
\<close>

function fitLoop :: "layoutConfig \<Rightarrow> font \<Rightarrow> real \<Rightarrow> real \<times> jsstring list \<Rightarrow> real \<times> jsstring list" where
  "fitLoop cfg fnt testSize best =
    (if testSize \<le> maxTextSize cfg
     then
       (if fits cfg fnt testSize
        then fitLoop cfg fnt (testSize + 0.5)
               (testSize, dimWrappedLines (calculateDimensions cfg fnt testSize))
        else best)
     else best)"
  by pat_completeness auto
termination
proof (relation "measure (\<lambda>(cfg, fnt, testSize, best). nat (\<lceil>(maxTextSize cfg - testSize) * 2\<rceil> + 1))")
  show "wf (measure (\<lambda>(cfg, fnt, testSize, best). nat (\<lceil>(maxTextSize cfg - testSize) * 2\<rceil> + 1)))"
    by simp
next
  fix cfg :: layoutConfig and fnt :: font and testSize :: real and best :: "real \<times> jsstring list"
  assume le: "testSize \<le> maxTextSize cfg"
  have "(maxTextSize cfg - (testSize + 0.5)) * 2 = (maxTextSize cfg - testSize) * 2 - 1"
    by (simp add: algebra_simps)
  then have c: "\<lceil>(maxTextSize cfg - (testSize + 0.5)) * 2\<rceil> = \<lceil>(maxTextSize cfg - testSize) * 2\<rceil> - 1"
    by (simp only: ceiling_diff_one)
  have "0 \<le> (maxTextSize cfg - testSize) * 2" using le by simp
  then have "0 \<le> \<lceil>(maxTextSize cfg - testSize) * 2\<rceil>" by (simp only: zero_le_ceiling)
  then show "((cfg, fnt, testSize + 0.5, testSize, dimWrappedLines (calculateDimensions cfg fnt testSize)),
        cfg, fnt, testSize, best)
      \<in> measure (\<lambda>(cfg, fnt, testSize, best). nat (\<lceil>(maxTextSize cfg - testSize) * 2\<rceil> + 1))"
    unfolding in_measure prod.case c by linarith
qed

declare fitLoop.simps [simp del]

text \<open>
  The layout of \<open>generateGCode\<close>: the output size and the wrapped lines after
  the first wrap and the auto-fit block.
\<close>

definition gcodeLayout :: "layoutConfig \<Rightarrow> font \<Rightarrow> real \<times> jsstring list" where
  "gcodeLayout cfg fnt =
    (let wrappedLines = gcodeWrap cfg fnt
     in if autoFit cfg \<and> (maxWidth cfg > 0 \<or> maxHeight cfg > 0)
        then fitLoop cfg fnt (outputSize cfg) (outputSize cfg, wrappedLines)
        else (outputSize cfg, wrappedLines))"

text \<open>
  The layout of \<open>exportImage\<close>, whose auto-fit block is the same text as that
  of \<open>generateGCode\<close>. On an empty text \<open>exportImage\<close> shows an alert and
  returns before any layout: this is the result \<open>None\<close>.
\<close>

definition imageLayout :: "layoutConfig \<Rightarrow> font \<Rightarrow> (real \<times> jsstring list) option" where
  "imageLayout cfg fnt =
    (if inputText cfg = [] then None
     else
       (let wrappedLines = imageWrap cfg fnt
        in if autoFit cfg \<and> (maxWidth cfg > 0 \<or> maxHeight cfg > 0)
           then Some (fitLoop cfg fnt (outputSize cfg) (outputSize cfg, wrappedLines))
           else Some (outputSize cfg, wrappedLines)))"

subsection \<open>What the size search returns\<close>

lemma fitLoop_spec:
  "(fitLoop cfg fnt t best = best \<and> (t > maxTextSize cfg \<or> \<not> fits cfg fnt t)) \<or>
   (\<exists>n. fitLoop cfg fnt t best =
          (t + real n / 2, dimWrappedLines (calculateDimensions cfg fnt (t + real n / 2))) \<and>
        t + real n / 2 \<le> maxTextSize cfg \<and>
        (\<forall>k \<le> n. fits cfg fnt (t + real k / 2)) \<and>
        (t + real (n + 1) / 2 > maxTextSize cfg \<or> \<not> fits cfg fnt (t + real (n + 1) / 2)))"
proof (induction cfg fnt t best rule: fitLoop.induct)
  case (1 cfg fnt t best)
  show ?case
  proof (cases "t \<le> maxTextSize cfg \<and> fits cfg fnt t")
    case False
    then show ?thesis by (auto simp: fitLoop.simps [of cfg fnt t best])
  next
    case True
    let ?best = "(t, dimWrappedLines (calculateDimensions cfg fnt t))"
    have unfold: "fitLoop cfg fnt t best = fitLoop cfg fnt (t + 0.5) ?best"
      using True by (simp add: fitLoop.simps [of cfg fnt t best])
    from "1.IH" [of] True
    consider
      (stop) "fitLoop cfg fnt (t + 0.5) ?best = ?best"
             "t + 0.5 > maxTextSize cfg \<or> \<not> fits cfg fnt (t + 0.5)"
    | (more) n where
        "fitLoop cfg fnt (t + 0.5) ?best =
           (t + 0.5 + real n / 2, dimWrappedLines (calculateDimensions cfg fnt (t + 0.5 + real n / 2)))"
        "t + 0.5 + real n / 2 \<le> maxTextSize cfg"
        "\<forall>k \<le> n. fits cfg fnt (t + 0.5 + real k / 2)"
        "t + 0.5 + real (n + 1) / 2 > maxTextSize cfg \<or> \<not> fits cfg fnt (t + 0.5 + real (n + 1) / 2)"
      by blast
    then show ?thesis
    proof cases
      case stop
      have "fitLoop cfg fnt t best =
          (t + real 0 / 2, dimWrappedLines (calculateDimensions cfg fnt (t + real 0 / 2)))"
        using unfold stop(1) by simp
      moreover have "t + real 0 / 2 \<le> maxTextSize cfg" using True by simp
      moreover have "\<forall>k \<le> (0::nat). fits cfg fnt (t + real k / 2)" using True by simp
      moreover have "t + real (0 + 1) / 2 > maxTextSize cfg \<or> \<not> fits cfg fnt (t + real (0 + 1) / 2)"
        using stop(2) by simp
      ultimately show ?thesis by blast
    next
      case (more n)
      have e: "t + 0.5 + real k / 2 = t + real (Suc k) / 2" for k
        by (simp add: field_simps)
      have "fitLoop cfg fnt t best =
          (t + real (Suc n) / 2, dimWrappedLines (calculateDimensions cfg fnt (t + real (Suc n) / 2)))"
        using unfold more(1) by (simp only: e)
      moreover have "t + real (Suc n) / 2 \<le> maxTextSize cfg"
        using more(2) by (simp only: e)
      moreover have "\<forall>k \<le> Suc n. fits cfg fnt (t + real k / 2)"
      proof (intro allI impI)
        fix k assume k: "k \<le> Suc n"
        show "fits cfg fnt (t + real k / 2)"
        proof (cases k)
          case 0
          then show ?thesis using True by simp
        next
          case (Suc j)
          then have "j \<le> n" using k by simp
          then have "fits cfg fnt (t + 0.5 + real j / 2)" using more(3) by blast
          then show ?thesis by (simp only: e Suc)
        qed
      qed
      moreover have "t + real (Suc n + 1) / 2 > maxTextSize cfg
          \<or> \<not> fits cfg fnt (t + real (Suc n + 1) / 2)"
        using more(4) by (simp only: e Suc_eq_plus1 [symmetric])
      ultimately show ?thesis by blast
    qed
  qed
qed

subsection \<open>A text that fits again after it wraps\<close>

text \<open>
  One glyph, \<open>M\<close>, 320 canvas pixels wide with an advance of 480 font units, on a
  canvas 400 pixels high. In \<open>calculateDimensions\<close> a word \<open>M\<close> measures
  \<open>0.8 * testSize\<close> for the wrap and \<open>1.2 * testSize\<close> for the line width.
\<close>

definition fitFont :: font where
  "fitFont = [js ''M'' \<mapsto>
     \<lparr>glyphStrokes = [],
      bounds = \<lparr>minX = 0, minY = 0, maxX = 320, maxY = 200, width = 320, height = 200\<rparr>,
      horizAdvX = Some 480, glyphName = None\<rparr>]"

text \<open>The text \<open>M M\<close>, at most 26 units wide, sizes from 9 to 20.\<close>

definition fitConfig :: layoutConfig where
  "fitConfig = \<lparr>inputText = js ''M M'', outputSize = 9, charSpacing = 0, spaceWidth = 2,
     lineGap = 2, maxWidth = 26, maxHeight = 0, autoFit = True, maxTextSize = 20,
     referenceHeight = 400, ascent = 800, descent = - 200\<rparr>"

lemma fit_fields:
  "maxWidth (fitConfig\<lparr>outputSize := z\<rparr>) = 26" "maxHeight (fitConfig\<lparr>outputSize := z\<rparr>) = 0"
  "maxTextSize (fitConfig\<lparr>outputSize := z\<rparr>) = 20"
  "outputSize (fitConfig\<lparr>outputSize := z\<rparr>) = z" "autoFit (fitConfig\<lparr>outputSize := z\<rparr>)"
  "spaceWidth (fitConfig\<lparr>outputSize := z\<rparr>) = 2" "charSpacing (fitConfig\<lparr>outputSize := z\<rparr>) = 0"
  by (simp_all add: fitConfig_def)

lemma fit_inputLines: "inputLines (fitConfig\<lparr>outputSize := z\<rparr>) = [js ''M M'']"
  by (simp add: inputLines_def fitConfig_def js_def)

lemma fit_words: "splitOn 32 (js ''M M'') = [js ''M'', js ''M'']"
  by (simp add: js_def)

lemma fit_wordWidth: "testWordWidth (fitConfig\<lparr>outputSize := z\<rparr>) fitFont s (js ''M'') = 4 * s / 5"
  by (simp add: testWordWidth_def testCharWidth_def fitConfig_def fitFont_def js_def)

lemma fit_wrap_one:
  assumes "4 * s / 5 + 2 + 4 * s / 5 \<le> 26"
  shows "testWrap (fitConfig\<lparr>outputSize := z\<rparr>) fitFont s = [js ''M M'']"
proof -
  have "wrapText (testWordWidth (fitConfig\<lparr>outputSize := z\<rparr>) fitFont s) (2 + 0) 26 [js ''M M'']
      = [js ''M M'']"
    using assms
    by (simp add: wrapText_def wrapInputLine_def fit_words wrapWord_def fit_wordWidth Let_def)
       (simp add: js_def)
  then show ?thesis
    by (simp only: testWrap_def fit_inputLines fit_fields) simp
qed

lemma fit_wrap_two:
  assumes "4 * s / 5 + 2 + 4 * s / 5 > 26"
  shows "testWrap (fitConfig\<lparr>outputSize := z\<rparr>) fitFont s = [js ''M'', js ''M'']"
proof -
  have "wrapText (testWordWidth (fitConfig\<lparr>outputSize := z\<rparr>) fitFont s) (2 + 0) 26 [js ''M M'']
      = [js ''M'', js ''M'']"
    using assms
    by (simp add: wrapText_def wrapInputLine_def fit_words wrapWord_def fit_wordWidth Let_def)
       (simp add: js_def)
  then show ?thesis
    by (simp only: testWrap_def fit_inputLines fit_fields) simp
qed

lemma fit_lineWidth_one:
  "testLineWidth (fitConfig\<lparr>outputSize := z\<rparr>) fitFont s (js ''M M'') = 12 * s / 5 + 2"
  by (simp add: testLineWidth_def testLineCharWidth_def fitConfig_def fitFont_def js_def
      normalizeCharacter_def)

lemma fit_lineWidth_two:
  "testLineWidth (fitConfig\<lparr>outputSize := z\<rparr>) fitFont s (js ''M'') = 6 * s / 5"
  by (simp add: testLineWidth_def testLineCharWidth_def fitConfig_def fitFont_def js_def
      normalizeCharacter_def)

lemma fit_fits_one:
  assumes "0 \<le> s" "4 * s / 5 + 2 + 4 * s / 5 \<le> 26"
  shows "fits (fitConfig\<lparr>outputSize := z\<rparr>) fitFont s \<longleftrightarrow> 12 * s / 5 + 2 \<le> 26"
proof -
  have w: "dimWidth (calculateDimensions (fitConfig\<lparr>outputSize := z\<rparr>) fitFont s) = 12 * s / 5 + 2"
    using assms(1)
    by (simp add: calculateDimensions_def Let_def fit_wrap_one [OF assms(2)] fit_lineWidth_one)
  show ?thesis
    unfolding fits_def Let_def w fit_fields by simp
qed

lemma fit_fits_two:
  assumes "0 \<le> s" "4 * s / 5 + 2 + 4 * s / 5 > 26"
  shows "fits (fitConfig\<lparr>outputSize := z\<rparr>) fitFont s \<longleftrightarrow> 6 * s / 5 \<le> 26"
proof -
  have w: "dimWidth (calculateDimensions (fitConfig\<lparr>outputSize := z\<rparr>) fitFont s) = 6 * s / 5"
    using assms(1)
    by (simp add: calculateDimensions_def Let_def fit_wrap_two [OF assms(2)] fit_lineWidth_two)
  show ?thesis
    unfolding fits_def Let_def w fit_fields by simp
qed

lemma fitConfig_self: "fitConfig\<lparr>outputSize := 9\<rparr> = fitConfig"
  by (simp add: fitConfig_def)

lemma fit_layout: "gcodeLayout fitConfig fitFont = (10, [js ''M M''])"
proof -
  let ?cfg = "fitConfig\<lparr>outputSize := 9\<rparr>"
  have f9: "fits ?cfg fitFont 9" by (simp add: fit_fits_one)
  have f95: "fits ?cfg fitFont (9 + 0.5)" by (simp add: fit_fits_one)
  have f10: "fits ?cfg fitFont (9 + 0.5 + 0.5)" by (simp add: fit_fits_one)
  have f105: "\<not> fits ?cfg fitFont (9 + 0.5 + 0.5 + 0.5)" by (simp add: fit_fits_one)
  have w: "dimWrappedLines (calculateDimensions ?cfg fitFont (9 + 0.5 + 0.5)) = [js ''M M'']"
    by (simp add: calculateDimensions_def Let_def fit_wrap_one)
  have "fitLoop ?cfg fitFont 9 best = (10, [js ''M M''])" for best
    using f9 f95 f10 f105 w
    by (simp add: fitLoop.simps [of ?cfg fitFont] fit_fields)
  then have "gcodeLayout ?cfg fitFont = (10, [js ''M M''])"
    by (simp add: gcodeLayout_def Let_def fit_fields)
  then show ?thesis by (simp only: fitConfig_self)
qed

text \<open>Started at size 12, the first candidate does not fit and the size is kept.\<close>

lemma fit_layout_12:
  "fst (gcodeLayout (fitConfig\<lparr>outputSize := 12\<rparr>) fitFont) = 12 \<and>
   \<not> fits (fitConfig\<lparr>outputSize := 12\<rparr>) fitFont 12"
proof -
  let ?cfg = "fitConfig\<lparr>outputSize := 12\<rparr>"
  have f12: "\<not> fits ?cfg fitFont 12" by (simp add: fit_fits_one)
  have "fitLoop ?cfg fitFont 12 best = best" for best
    using f12 by (simp add: fitLoop.simps [of ?cfg fitFont])
  then show ?thesis
    using f12 by (simp add: gcodeLayout_def Let_def fit_fields)
qed

text \<open>On monotone constraints the loop finds the largest fitting candidate.\<close>

lemma fitLoop_largest:
  assumes le: "t \<le> maxTextSize cfg" and f: "fits cfg fnt t"
    and mono: "\<forall>j k. j \<le> k \<and> fits cfg fnt (t + real k / 2) \<longrightarrow> fits cfg fnt (t + real j / 2)"
  shows "\<exists>n. fitLoop cfg fnt t best =
          (t + real n / 2, dimWrappedLines (calculateDimensions cfg fnt (t + real n / 2))) \<and>
        t + real n / 2 \<le> maxTextSize cfg \<and> fits cfg fnt (t + real n / 2) \<and>
        (\<forall>m. t + real m / 2 \<le> maxTextSize cfg \<and> fits cfg fnt (t + real m / 2) \<longrightarrow> m \<le> n)"
proof -
  from fitLoop_spec [of cfg fnt t best] le f
  obtain n where n:
    "fitLoop cfg fnt t best =
       (t + real n / 2, dimWrappedLines (calculateDimensions cfg fnt (t + real n / 2)))"
    "t + real n / 2 \<le> maxTextSize cfg"
    "\<forall>k \<le> n. fits cfg fnt (t + real k / 2)"
    "t + real (n + 1) / 2 > maxTextSize cfg \<or> \<not> fits cfg fnt (t + real (n + 1) / 2)"
    by (auto simp: not_less)
  have "m \<le> n" if m: "t + real m / 2 \<le> maxTextSize cfg" "fits cfg fnt (t + real m / 2)" for m
  proof (rule ccontr)
    assume "\<not> m \<le> n"
    then have nm: "n + 1 \<le> m" by simp
    then have "real (n + 1) \<le> real m" by (simp only: of_nat_le_iff)
    then have "t + real (n + 1) / 2 \<le> t + real m / 2"
      by (simp only: add_left_mono divide_right_mono zero_le_numeral)
    then have "\<not> t + real (n + 1) / 2 > maxTextSize cfg" using m(1) by linarith
    then have "\<not> fits cfg fnt (t + real (n + 1) / 2)" using n(4) by blast
    moreover have "fits cfg fnt (t + real (n + 1) / 2)"
      using mono nm m(2) by blast
    ultimately show False by simp
  qed
  moreover have "fits cfg fnt (t + real n / 2)" using n(3) by simp
  ultimately show ?thesis using n(1,2) by blast
qed

text \<open>
  Claim C3, as amended. When auto-fit is enabled and at least one of \<open>maxWidth\<close>
  and \<open>maxHeight\<close> is positive: if the configured \<open>outputSize\<close> exceeds
  \<open>maxTextSize\<close> or does not satisfy the constraints, the size and the first wrap
  are kept. If \<open>outputSize\<close> does not exceed \<open>maxTextSize\<close> and satisfies the
  constraints, and the constraints are monotone on the candidates (a candidate
  below a fitting candidate fits), the search returns the largest candidate
  \<open>outputSize + n * 0.5\<close> not exceeding \<open>maxTextSize\<close> whose re-wrapped width and
  height satisfy the constraints, with the lines wrapped at that size. A
  constraint that is 0 or negative is ignored. The result is a function of the
  inputs, so a second run on the same inputs returns the same size and lines.
\<close>

theorem C3_autofit_search:
  assumes "autoFit cfg" and "maxWidth cfg > 0 \<or> maxHeight cfg > 0"
  shows
    "((outputSize cfg > maxTextSize cfg \<or> \<not> fits cfg fnt (outputSize cfg)) \<longrightarrow>
        gcodeLayout cfg fnt = (outputSize cfg, gcodeWrap cfg fnt)) \<and>
     (outputSize cfg \<le> maxTextSize cfg \<and> fits cfg fnt (outputSize cfg) \<and>
      (\<forall>j k. j \<le> k \<and> fits cfg fnt (outputSize cfg + real k / 2)
          \<longrightarrow> fits cfg fnt (outputSize cfg + real j / 2)) \<longrightarrow>
        (\<exists>n. gcodeLayout cfg fnt =
               (outputSize cfg + real n / 2,
                dimWrappedLines (calculateDimensions cfg fnt (outputSize cfg + real n / 2))) \<and>
             outputSize cfg + real n / 2 \<le> maxTextSize cfg \<and>
             fits cfg fnt (outputSize cfg + real n / 2) \<and>
             (\<forall>m. outputSize cfg + real m / 2 \<le> maxTextSize cfg \<and>
                  fits cfg fnt (outputSize cfg + real m / 2) \<longrightarrow> m \<le> n))) \<and>
     (fits cfg fnt t \<longleftrightarrow>
        (maxWidth cfg \<le> 0 \<or> dimWidth (calculateDimensions cfg fnt t) \<le> maxWidth cfg) \<and>
        (maxHeight cfg \<le> 0 \<or> dimHeight (calculateDimensions cfg fnt t) \<le> maxHeight cfg))"
proof -
  have l: "gcodeLayout cfg fnt =
      fitLoop cfg fnt (outputSize cfg) (outputSize cfg, gcodeWrap cfg fnt)"
    using assms by (simp add: gcodeLayout_def Let_def)
  have keep: "gcodeLayout cfg fnt = (outputSize cfg, gcodeWrap cfg fnt)"
    if "outputSize cfg > maxTextSize cfg \<or> \<not> fits cfg fnt (outputSize cfg)"
    using that unfolding l
    by (auto simp: fitLoop.simps [of cfg fnt "outputSize cfg"])
  have f: "fits cfg fnt t \<longleftrightarrow>
        (maxWidth cfg \<le> 0 \<or> dimWidth (calculateDimensions cfg fnt t) \<le> maxWidth cfg) \<and>
        (maxHeight cfg \<le> 0 \<or> dimHeight (calculateDimensions cfg fnt t) \<le> maxHeight cfg)"
    by (simp add: fits_def Let_def)
  show ?thesis
    using keep f
      fitLoop_largest [of "outputSize cfg" cfg fnt "(outputSize cfg, gcodeWrap cfg fnt)"]
    unfolding l by blast
qed

text \<open>The single word \<open>M\<close> never wraps, so its width grows with the size.\<close>

definition singleConfig :: layoutConfig where
  "singleConfig = fitConfig\<lparr>inputText := js ''M'', maxTextSize := 10\<rparr>"

lemma single_fits: "fits singleConfig fitFont s \<longleftrightarrow> 6 * s / 5 \<le> 26"
proof -
  have w: "testWrap singleConfig fitFont s = [js ''M'']"
    by (simp add: testWrap_def inputLines_def singleConfig_def fitConfig_def js_def
        wrapText_def wrapInputLine_def wrapWord_def)
  have lw: "testLineWidth singleConfig fitFont s (js ''M'') = 6 * s / 5"
    by (simp add: testLineWidth_def testLineCharWidth_def singleConfig_def fitConfig_def
        fitFont_def js_def normalizeCharacter_def)
  have d: "dimWidth (calculateDimensions singleConfig fitFont s) = max 0 (6 * s / 5)"
    by (simp add: calculateDimensions_def Let_def w lw)
  have m: "maxWidth singleConfig = 26" "maxHeight singleConfig = 0"
    by (simp_all add: singleConfig_def fitConfig_def)
  show ?thesis
    unfolding fits_def Let_def d m by auto
qed

theorem C3_autofit_search_witness:
  "autoFit singleConfig \<and> maxWidth singleConfig > 0 \<and>
   outputSize singleConfig \<le> maxTextSize singleConfig \<and>
   fits singleConfig fitFont (outputSize singleConfig) \<and>
   (\<exists>n. gcodeLayout singleConfig fitFont =
          (outputSize singleConfig + real n / 2,
           dimWrappedLines (calculateDimensions singleConfig fitFont
              (outputSize singleConfig + real n / 2))) \<and>
        outputSize singleConfig + real n / 2 \<le> maxTextSize singleConfig \<and>
        fits singleConfig fitFont (outputSize singleConfig + real n / 2) \<and>
        (\<forall>m. outputSize singleConfig + real m / 2 \<le> maxTextSize singleConfig \<and>
             fits singleConfig fitFont (outputSize singleConfig + real m / 2) \<longrightarrow> m \<le> n))"
proof -
  have a: "autoFit singleConfig" and w: "maxWidth singleConfig > 0"
    and le: "outputSize singleConfig \<le> maxTextSize singleConfig"
    by (simp_all add: singleConfig_def fitConfig_def)
  have f: "fits singleConfig fitFont (outputSize singleConfig)"
    by (simp add: single_fits) (simp add: singleConfig_def fitConfig_def)
  have mono: "\<forall>j k. j \<le> k \<and> fits singleConfig fitFont (outputSize singleConfig + real k / 2)
      \<longrightarrow> fits singleConfig fitFont (outputSize singleConfig + real j / 2)"
  proof (intro allI impI)
    fix j k :: nat
    assume jk: "j \<le> k \<and> fits singleConfig fitFont (outputSize singleConfig + real k / 2)"
    then have "real j \<le> real k" by simp
    then have "6 * (outputSize singleConfig + real j / 2) / 5
        \<le> 6 * (outputSize singleConfig + real k / 2) / 5" by simp
    with jk show "fits singleConfig fitFont (outputSize singleConfig + real j / 2)"
      unfolding single_fits by linarith
  qed
  have w': "maxWidth singleConfig > 0 \<or> maxHeight singleConfig > 0" using w by simp
  from C3_autofit_search [OF a w', of fitFont, THEN conjunct2, THEN conjunct1, rule_format,
      OF conjI [OF le conjI [OF f mono]]]
  show ?thesis using a w le f by blast
qed

text \<open>
  The claim as stated fails in two ways. The loop stops at the first candidate
  that does not fit: for \<^const>\<open>fitConfig\<close> it returns 10, because 10.5 does not
  fit on one line, although at 15.5 the text wraps into two lines that fit (the
  re-wrap measures a word by \<open>bounds.width\<close>, the line width by \<open>horizAdvX\<close>). And
  started at size 12, which does not fit, the search keeps 12.
\<close>

theorem C3_autofit_search_counterexample:
  "autoFit fitConfig \<and> maxWidth fitConfig > 0 \<and>
   gcodeLayout fitConfig fitFont = (10, [js ''M M'']) \<and>
   outputSize fitConfig + real 13 / 2 \<le> maxTextSize fitConfig \<and>
   fits fitConfig fitFont (outputSize fitConfig + real 13 / 2) \<and>
   fst (gcodeLayout fitConfig fitFont) < outputSize fitConfig + real 13 / 2 \<and>
   fst (gcodeLayout (fitConfig\<lparr>outputSize := 12\<rparr>) fitFont) = 12 \<and>
   \<not> fits (fitConfig\<lparr>outputSize := 12\<rparr>) fitFont 12"
proof -
  have "fits (fitConfig\<lparr>outputSize := 9\<rparr>) fitFont (9 + 13 / 2)"
    by (simp add: fit_fits_two)
  then have "fits fitConfig fitFont (9 + 13 / 2)"
    by (simp only: fitConfig_self)
  moreover have "outputSize fitConfig = 9" "maxTextSize fitConfig = 20" "autoFit fitConfig"
    "maxWidth fitConfig = 26"
    by (simp_all add: fitConfig_def)
  ultimately show ?thesis
    using fit_layout_12 by (simp add: fit_layout)
qed

section \<open>The layouts of exportSVG and exportDXF\<close>

text \<open>
  \<open>maxCharHeight\<close>: the largest \<open>bounds.height\<close> in the font, and the canvas height
  when that is 0; \<open>fontKeys\<close> are the keys that \<open>for (const char in this.font)\<close>
  visits.
\<close>

definition maxCharHeightOf :: "font \<Rightarrow> jsstring list \<Rightarrow> real \<Rightarrow> real" where
  "maxCharHeightOf fnt fontKeys canvasHeight =
    (let maxCharHeight =
           fold (\<lambda>char m. case fnt char of
                             Some charData \<Rightarrow> max m (height (bounds charData))
                           | None \<Rightarrow> m)
             fontKeys 0
     in if maxCharHeight = 0 then canvasHeight else maxCharHeight)"

text \<open>
  The first wrap of \<open>exportSVG\<close>: a character is looked up as it is, without
  \<open>normalizeCharacter\<close>.
\<close>

definition svgCharWidth :: "layoutConfig \<Rightarrow> font \<Rightarrow> nat \<Rightarrow> real" where
  "svgCharWidth cfg fnt c =
    (let scale = outputSize cfg / referenceHeight cfg;
         svgToCanvasScale = canvasScale cfg
     in case fnt [c] of
          Some charData \<Rightarrow>
            (case horizAdvX charData of
               Some h \<Rightarrow> h * svgToCanvasScale * scale + charSpacing cfg
             | None \<Rightarrow> width (bounds charData) * scale + charSpacing cfg)
        | None \<Rightarrow> outputSize cfg * 0.5 + charSpacing cfg)"

definition svgWordWidth :: "layoutConfig \<Rightarrow> font \<Rightarrow> jsstring \<Rightarrow> real" where
  "svgWordWidth cfg fnt word = fold (\<lambda>c wordWidth. wordWidth + svgCharWidth cfg fnt c) word 0"

definition svgSpaceWidthTotal :: "layoutConfig \<Rightarrow> font \<Rightarrow> real" where
  "svgSpaceWidthTotal cfg fnt =
    (let scale = outputSize cfg / referenceHeight cfg;
         svgToCanvasScale = canvasScale cfg
     in case fnt [32] of
          Some spaceCharData \<Rightarrow>
            (case horizAdvX spaceCharData of
               Some h \<Rightarrow> h * svgToCanvasScale * scale + charSpacing cfg
             | None \<Rightarrow> spaceWidth cfg + charSpacing cfg)
        | None \<Rightarrow> spaceWidth cfg + charSpacing cfg)"

definition svgWrap :: "layoutConfig \<Rightarrow> font \<Rightarrow> jsstring list" where
  "svgWrap cfg fnt =
    (if maxWidth cfg > 0
     then wrapText (svgWordWidth cfg fnt) (svgSpaceWidthTotal cfg fnt) (maxWidth cfg) (inputLines cfg)
     else inputLines cfg)"

text \<open>The first wrap of \<open>exportDXF\<close>.\<close>

definition dxfCharWidth :: "layoutConfig \<Rightarrow> font \<Rightarrow> nat \<Rightarrow> real" where
  "dxfCharWidth cfg fnt c =
    (let scale = outputSize cfg / referenceHeight cfg;
         svgToCanvasScale = canvasScale cfg
     in case fnt [c] of
          Some charData \<Rightarrow>
            (case horizAdvX charData of
               Some h \<Rightarrow> h * svgToCanvasScale * scale + charSpacing cfg
             | None \<Rightarrow> width (bounds charData) * scale + charSpacing cfg)
        | None \<Rightarrow> outputSize cfg * 0.5 + charSpacing cfg)"

definition dxfWordWidth :: "layoutConfig \<Rightarrow> font \<Rightarrow> jsstring \<Rightarrow> real" where
  "dxfWordWidth cfg fnt word = fold (\<lambda>c wordWidth. wordWidth + dxfCharWidth cfg fnt c) word 0"

definition dxfSpaceWidthTotal :: "layoutConfig \<Rightarrow> font \<Rightarrow> real" where
  "dxfSpaceWidthTotal cfg fnt =
    (let scale = outputSize cfg / referenceHeight cfg;
         svgToCanvasScale = canvasScale cfg
     in case fnt [32] of
          Some spaceCharData \<Rightarrow>
            (case horizAdvX spaceCharData of
               Some h \<Rightarrow> h * svgToCanvasScale * scale + charSpacing cfg
             | None \<Rightarrow> spaceWidth cfg + charSpacing cfg)
        | None \<Rightarrow> spaceWidth cfg + charSpacing cfg)"

definition dxfWrap :: "layoutConfig \<Rightarrow> font \<Rightarrow> jsstring list" where
  "dxfWrap cfg fnt =
    (if maxWidth cfg > 0
     then wrapText (dxfWordWidth cfg fnt) (dxfSpaceWidthTotal cfg fnt) (maxWidth cfg) (inputLines cfg)
     else inputLines cfg)"

text \<open>
  \<open>calculateDimensions(testSize)\<close> of \<open>exportSVG\<close>. The re-wrap is the same text
  as in \<open>generateGCode\<close>. The width of a line is measured by \<open>bounds.width\<close> of the
  glyph found under the character itself, and the line spacing is
  \<open>maxCharHeight * testScale + lineGap\<close>.
\<close>

definition svgTestLineCharWidth :: "layoutConfig \<Rightarrow> font \<Rightarrow> real \<Rightarrow> nat \<Rightarrow> real" where
  "svgTestLineCharWidth cfg fnt testSize c =
    (let testScale = testSize / referenceHeight cfg
     in case fnt [c] of
          Some charData \<Rightarrow> width (bounds charData) * testScale + charSpacing cfg
        | None \<Rightarrow> (if [c] = [32] then spaceWidth cfg else testSize * 0.5) + charSpacing cfg)"

definition svgTestLineWidth :: "layoutConfig \<Rightarrow> font \<Rightarrow> real \<Rightarrow> jsstring \<Rightarrow> real" where
  "svgTestLineWidth cfg fnt testSize line =
    fold (\<lambda>c lineWidth. lineWidth + svgTestLineCharWidth cfg fnt testSize c) line 0"

definition svgCalculateDimensions :: "layoutConfig \<Rightarrow> font \<Rightarrow> real \<Rightarrow> real \<Rightarrow> dimensions" where
  "svgCalculateDimensions cfg fnt maxCharHeight testSize =
    (let testScale = testSize / referenceHeight cfg;
         testActualCharHeightMM = maxCharHeight * testScale;
         testLineSpacing = testActualCharHeightMM + lineGap cfg;
         testWrappedLines = testWrap cfg fnt testSize;
         maxLineWidth = fold (\<lambda>line m. max m (svgTestLineWidth cfg fnt testSize line)) testWrappedLines 0;
         totalHeight = totalHeightOf testSize testLineSpacing testWrappedLines
     in \<lparr>dimWidth = maxLineWidth, dimHeight = totalHeight, dimWrappedLines = testWrappedLines\<rparr>)"

definition svgFits :: "layoutConfig \<Rightarrow> font \<Rightarrow> real \<Rightarrow> real \<Rightarrow> bool" where
  "svgFits cfg fnt maxCharHeight testSize =
    (let dims = svgCalculateDimensions cfg fnt maxCharHeight testSize;
         fitsWidth = (maxWidth cfg \<le> 0 \<or> dimWidth dims \<le> maxWidth cfg);
         fitsHeight = (maxHeight cfg \<le> 0 \<or> dimHeight dims \<le> maxHeight cfg)
     in fitsWidth \<and> fitsHeight)"

text \<open>
  \<open>calculateDimensions(testSize)\<close> of \<open>exportDXF\<close>: the line spacing is
  \<open>testSize + lineGap\<close>, and the height starts from \<open>maxCharHeight * testScale\<close>,
  half of which is added for a blank line.
\<close>

definition dxfTestLineCharWidth :: "layoutConfig \<Rightarrow> font \<Rightarrow> real \<Rightarrow> nat \<Rightarrow> real" where
  "dxfTestLineCharWidth cfg fnt testSize c =
    (let testScale = testSize / referenceHeight cfg
     in case fnt [c] of
          Some charData \<Rightarrow> width (bounds charData) * testScale + charSpacing cfg
        | None \<Rightarrow> (if [c] = [32] then spaceWidth cfg else testSize * 0.5) + charSpacing cfg)"

definition dxfTestLineWidth :: "layoutConfig \<Rightarrow> font \<Rightarrow> real \<Rightarrow> jsstring \<Rightarrow> real" where
  "dxfTestLineWidth cfg fnt testSize line =
    fold (\<lambda>c lineWidth. lineWidth + dxfTestLineCharWidth cfg fnt testSize c) line 0"

definition dxfCalculateDimensions :: "layoutConfig \<Rightarrow> font \<Rightarrow> real \<Rightarrow> real \<Rightarrow> dimensions" where
  "dxfCalculateDimensions cfg fnt maxCharHeight testSize =
    (let testScale = testSize / referenceHeight cfg;
         testLineSpacing = testSize + lineGap cfg;
         testWrappedLines = testWrap cfg fnt testSize;
         maxLineWidth = fold (\<lambda>line m. max m (dxfTestLineWidth cfg fnt testSize line)) testWrappedLines 0;
         testActualCharHeightMM = maxCharHeight * testScale;
         totalHeight = totalHeightOf testActualCharHeightMM testLineSpacing testWrappedLines
     in \<lparr>dimWidth = maxLineWidth, dimHeight = totalHeight, dimWrappedLines = testWrappedLines\<rparr>)"

definition dxfFits :: "layoutConfig \<Rightarrow> font \<Rightarrow> real \<Rightarrow> real \<Rightarrow> bool" where
  "dxfFits cfg fnt maxCharHeight testSize =
    (let dims = dxfCalculateDimensions cfg fnt maxCharHeight testSize;
         fitsWidth = (maxWidth cfg \<le> 0 \<or> dimWidth dims \<le> maxWidth cfg);
         fitsHeight = (maxHeight cfg \<le> 0 \<or> dimHeight dims \<le> maxHeight cfg)
     in fitsWidth \<and> fitsHeight)"

text \<open>
  The size loop of \<open>exportSVG\<close> and of \<open>exportDXF\<close>, the same text in both:
  \<open>fitsAt\<close> is the test \<open>fitsWidth && fitsHeight\<close> and \<open>linesAt\<close> the wrapped lines
  of \<open>calculateDimensions\<close> at a size.
\<close>

function sizeLoop ::
    "(real \<Rightarrow> bool) \<Rightarrow> (real \<Rightarrow> jsstring list) \<Rightarrow> real \<Rightarrow> real \<Rightarrow> real \<times> jsstring list
      \<Rightarrow> real \<times> jsstring list" where
  "sizeLoop fitsAt linesAt maxSize testSize best =
    (if testSize \<le> maxSize
     then
       (if fitsAt testSize
        then sizeLoop fitsAt linesAt maxSize (testSize + 0.5) (testSize, linesAt testSize)
        else best)
     else best)"
  by pat_completeness auto
termination
proof (relation "measure (\<lambda>(fitsAt, linesAt, maxSize, testSize, best). nat (\<lceil>(maxSize - testSize) * 2\<rceil> + 1))")
  show "wf (measure (\<lambda>(fitsAt, linesAt, maxSize, testSize, best). nat (\<lceil>(maxSize - testSize) * 2\<rceil> + 1)))"
    by simp
next
  fix fitsAt :: "real \<Rightarrow> bool" and linesAt :: "real \<Rightarrow> jsstring list"
    and maxSize testSize :: real and best :: "real \<times> jsstring list"
  assume le: "testSize \<le> maxSize"
  have "(maxSize - (testSize + 0.5)) * 2 = (maxSize - testSize) * 2 - 1"
    by (simp add: algebra_simps)
  then have c: "\<lceil>(maxSize - (testSize + 0.5)) * 2\<rceil> = \<lceil>(maxSize - testSize) * 2\<rceil> - 1"
    by (simp only: ceiling_diff_one)
  have "0 \<le> (maxSize - testSize) * 2" using le by simp
  then have "0 \<le> \<lceil>(maxSize - testSize) * 2\<rceil>" by (simp only: zero_le_ceiling)
  then show "((fitsAt, linesAt, maxSize, testSize + 0.5, testSize, linesAt testSize),
        fitsAt, linesAt, maxSize, testSize, best)
      \<in> measure (\<lambda>(fitsAt, linesAt, maxSize, testSize, best). nat (\<lceil>(maxSize - testSize) * 2\<rceil> + 1))"
    unfolding in_measure prod.case c by linarith
qed

declare sizeLoop.simps [simp del]

text \<open>
  The layouts of \<open>exportSVG\<close> and \<open>exportDXF\<close>: \<open>None\<close> on an empty text, where
  both show an alert and return.
\<close>

definition svgLayout :: "layoutConfig \<Rightarrow> font \<Rightarrow> jsstring list \<Rightarrow> (real \<times> jsstring list) option" where
  "svgLayout cfg fnt fontKeys =
    (if inputText cfg = [] then None
     else
       (let maxCharHeight = maxCharHeightOf fnt fontKeys (referenceHeight cfg);
            wrappedLines = svgWrap cfg fnt
        in if autoFit cfg \<and> (maxWidth cfg > 0 \<or> maxHeight cfg > 0)
           then Some (sizeLoop (svgFits cfg fnt maxCharHeight)
                        (\<lambda>testSize. dimWrappedLines (svgCalculateDimensions cfg fnt maxCharHeight testSize))
                        (maxTextSize cfg) (outputSize cfg) (outputSize cfg, wrappedLines))
           else Some (outputSize cfg, wrappedLines)))"

definition dxfLayout :: "layoutConfig \<Rightarrow> font \<Rightarrow> jsstring list \<Rightarrow> (real \<times> jsstring list) option" where
  "dxfLayout cfg fnt fontKeys =
    (if inputText cfg = [] then None
     else
       (let maxCharHeight = maxCharHeightOf fnt fontKeys (referenceHeight cfg);
            wrappedLines = dxfWrap cfg fnt
        in if autoFit cfg \<and> (maxWidth cfg > 0 \<or> maxHeight cfg > 0)
           then Some (sizeLoop (dxfFits cfg fnt maxCharHeight)
                        (\<lambda>testSize. dimWrappedLines (dxfCalculateDimensions cfg fnt maxCharHeight testSize))
                        (maxTextSize cfg) (outputSize cfg) (outputSize cfg, wrappedLines))
           else Some (outputSize cfg, wrappedLines)))"

section \<open>Glyph placement in the four exporters\<close>

text \<open>
  The amount each exporter adds to \<open>currentX\<close> for the character at index \<open>i\<close> of
  a line, and to (or subtracts from) \<open>currentY\<close> for a line, in its final loop
  over the wrapped lines. \<open>sz\<close> is the output size and \<open>outScale\<close> the scale after
  the auto-fit block.
\<close>

text \<open>\<open>generateGCode\<close>: the only exporter that calls \<open>getKerningAdjustment\<close>.\<close>

definition gcodeAdvance ::
    "layoutConfig \<Rightarrow> font \<Rightarrow> kernRule list \<Rightarrow> real \<Rightarrow> real \<Rightarrow> jsstring \<Rightarrow> nat \<Rightarrow> real" where
  "gcodeAdvance cfg fnt kerning outScale sz line i =
    (let char = [line ! i];
         normalizedChar = normalizeCharacter char
     in case fnt normalizedChar of
          None \<Rightarrow>
            if char = [32]
            then (case fnt [32] of
                    Some spaceCharData \<Rightarrow>
                      (case horizAdvX spaceCharData of
                         Some h \<Rightarrow> h * canvasScale cfg * outScale + charSpacing cfg
                       | None \<Rightarrow> spaceWidth cfg + charSpacing cfg)
                  | None \<Rightarrow> spaceWidth cfg + charSpacing cfg)
            else sz * 0.5 + charSpacing cfg
        | Some charData \<Rightarrow>
            (let spacing =
                   (if i < length line - 1
                    then charSpacing cfg - getKerningAdjustment fnt kerning char [line ! (i + 1)]
                    else charSpacing cfg);
                 charWidthCanvas =
                   (case horizAdvX charData of
                      Some h \<Rightarrow> h * canvasScale cfg
                    | None \<Rightarrow> width (bounds charData));
                 charWidth = charWidthCanvas * outScale
             in charWidth + spacing))"

definition gcodeLineAdvance :: "layoutConfig \<Rightarrow> real \<Rightarrow> jsstring \<Rightarrow> real" where
  "gcodeLineAdvance cfg sz line =
    (let lineSpacing = sz + lineGap cfg
     in if length line = 0 then sz * 0.5 else lineSpacing)"

text \<open>\<open>exportImage\<close>: the glyph is looked up under the character itself.\<close>

definition imageAdvance :: "layoutConfig \<Rightarrow> font \<Rightarrow> real \<Rightarrow> real \<Rightarrow> jsstring \<Rightarrow> nat \<Rightarrow> real" where
  "imageAdvance cfg fnt outScale sz line i =
    (let char = [line ! i];
         svgToCanvasScale = canvasScale cfg
     in case fnt char of
          None \<Rightarrow> (if char = [32] then spaceWidth cfg else sz * 0.5) + charSpacing cfg
        | Some charData \<Rightarrow>
            (case horizAdvX charData of
               Some h \<Rightarrow> h * svgToCanvasScale * outScale + charSpacing cfg
             | None \<Rightarrow> width (bounds charData) * outScale + charSpacing cfg))"

definition imageLineAdvance :: "layoutConfig \<Rightarrow> real \<Rightarrow> jsstring \<Rightarrow> real" where
  "imageLineAdvance cfg sz line =
    (let lineSpacing = sz + lineGap cfg
     in if length line = 0 then sz * 0.5 else lineSpacing)"

text \<open>\<open>exportSVG\<close> and \<open>exportDXF\<close>: the glyph is looked up through \<open>normalizeCharacter\<close>.\<close>

definition svgAdvance :: "layoutConfig \<Rightarrow> font \<Rightarrow> real \<Rightarrow> real \<Rightarrow> jsstring \<Rightarrow> nat \<Rightarrow> real" where
  "svgAdvance cfg fnt outScale sz line i =
    (let char = [line ! i];
         normalizedChar = normalizeCharacter char;
         svgToCanvasScale = canvasScale cfg
     in case fnt normalizedChar of
          None \<Rightarrow> (if char = [32] then spaceWidth cfg else sz * 0.5) + charSpacing cfg
        | Some charData \<Rightarrow>
            (case horizAdvX charData of
               Some h \<Rightarrow> h * svgToCanvasScale * outScale + charSpacing cfg
             | None \<Rightarrow> width (bounds charData) * outScale + charSpacing cfg))"

definition svgLineAdvance :: "layoutConfig \<Rightarrow> real \<Rightarrow> real \<Rightarrow> real \<Rightarrow> jsstring \<Rightarrow> real" where
  "svgLineAdvance cfg maxCharHeight outScale sz line =
    (let actualCharHeightMM = maxCharHeight * outScale;
         lineSpacing = actualCharHeightMM + lineGap cfg
     in if length line = 0 then sz * 0.5 else lineSpacing)"

definition dxfAdvance :: "layoutConfig \<Rightarrow> font \<Rightarrow> real \<Rightarrow> real \<Rightarrow> jsstring \<Rightarrow> nat \<Rightarrow> real" where
  "dxfAdvance cfg fnt outScale sz line i =
    (let char = [line ! i];
         normalizedChar = normalizeCharacter char;
         svgToCanvasScale = canvasScale cfg
     in case fnt normalizedChar of
          None \<Rightarrow> (if char = [32] then spaceWidth cfg else sz * 0.5) + charSpacing cfg
        | Some charData \<Rightarrow>
            (case horizAdvX charData of
               Some h \<Rightarrow> h * svgToCanvasScale * outScale + charSpacing cfg
             | None \<Rightarrow> width (bounds charData) * outScale + charSpacing cfg))"

definition dxfLineAdvance :: "layoutConfig \<Rightarrow> real \<Rightarrow> real \<Rightarrow> real \<Rightarrow> jsstring \<Rightarrow> real" where
  "dxfLineAdvance cfg maxCharHeight outScale sz line =
    (let actualCharHeightMM = maxCharHeight * outScale;
         lineSpacing = actualCharHeightMM + lineGap cfg
     in if length line = 0 then sz * 0.5 else lineSpacing)"

text \<open>
  The kerning that \<open>generateGCode\<close> subtracts at index \<open>i\<close>: the adjustment
  between the character and its successor when the glyph is in the font and the
  character is not the last of its line, and 0 otherwise.
\<close>

definition kerningAt :: "font \<Rightarrow> kernRule list \<Rightarrow> jsstring \<Rightarrow> nat \<Rightarrow> real" where
  "kerningAt fnt kerning line i =
    (if fnt (normalizeCharacter [line ! i]) \<noteq> None \<and> i < length line - 1
     then getKerningAdjustment fnt kerning [line ! i] [line ! (i + 1)]
     else 0)"

text \<open>
  What an exporter computes for a text: the output size and the wrapped lines
  after the auto-fit block, the horizontal advance of every character of every
  line, and the vertical advance of every line. The scale of the final loop is
  \<open>outputSize / referenceHeight\<close>.
\<close>

record textPlacement =
  placedSize :: real
  placedLines :: "jsstring list"
  advances :: "real list list"
  lineAdvances :: "real list"

definition gcodePlacement :: "layoutConfig \<Rightarrow> font \<Rightarrow> kernRule list \<Rightarrow> textPlacement" where
  "gcodePlacement cfg fnt kerning =
    (case gcodeLayout cfg fnt of
       (sz, wrappedLines) \<Rightarrow>
         (let scale = sz / referenceHeight cfg
          in \<lparr>placedSize = sz, placedLines = wrappedLines,
              advances = map (\<lambda>line. map (gcodeAdvance cfg fnt kerning scale sz line) [0 ..< length line])
                           wrappedLines,
              lineAdvances = map (gcodeLineAdvance cfg sz) wrappedLines\<rparr>))"

definition imagePlacement :: "layoutConfig \<Rightarrow> font \<Rightarrow> textPlacement option" where
  "imagePlacement cfg fnt =
    (case imageLayout cfg fnt of
       None \<Rightarrow> None
     | Some (sz, wrappedLines) \<Rightarrow>
         (let scale = sz / referenceHeight cfg
          in Some \<lparr>placedSize = sz, placedLines = wrappedLines,
              advances = map (\<lambda>line. map (imageAdvance cfg fnt scale sz line) [0 ..< length line])
                           wrappedLines,
              lineAdvances = map (imageLineAdvance cfg sz) wrappedLines\<rparr>))"

definition svgPlacement :: "layoutConfig \<Rightarrow> font \<Rightarrow> jsstring list \<Rightarrow> textPlacement option" where
  "svgPlacement cfg fnt fontKeys =
    (case svgLayout cfg fnt fontKeys of
       None \<Rightarrow> None
     | Some (sz, wrappedLines) \<Rightarrow>
         (let scale = sz / referenceHeight cfg;
              maxCharHeight = maxCharHeightOf fnt fontKeys (referenceHeight cfg)
          in Some \<lparr>placedSize = sz, placedLines = wrappedLines,
              advances = map (\<lambda>line. map (svgAdvance cfg fnt scale sz line) [0 ..< length line])
                           wrappedLines,
              lineAdvances = map (svgLineAdvance cfg maxCharHeight scale sz) wrappedLines\<rparr>))"

definition dxfPlacement :: "layoutConfig \<Rightarrow> font \<Rightarrow> jsstring list \<Rightarrow> textPlacement option" where
  "dxfPlacement cfg fnt fontKeys =
    (case dxfLayout cfg fnt fontKeys of
       None \<Rightarrow> None
     | Some (sz, wrappedLines) \<Rightarrow>
         (let scale = sz / referenceHeight cfg;
              maxCharHeight = maxCharHeightOf fnt fontKeys (referenceHeight cfg)
          in Some \<lparr>placedSize = sz, placedLines = wrappedLines,
              advances = map (\<lambda>line. map (dxfAdvance cfg fnt scale sz line) [0 ..< length line])
                           wrappedLines,
              lineAdvances = map (dxfLineAdvance cfg maxCharHeight scale sz) wrappedLines\<rparr>))"

subsection \<open>Where the exporters agree\<close>

lemma gcodeWordWidth_eq: "gcodeWordWidth cfg fnt = imageWordWidth cfg fnt"
proof -
  have "gcodeCharWidth cfg fnt c = imageCharWidth cfg fnt c" for c
    by (simp add: gcodeCharWidth_def imageCharWidth_def Let_def split: option.splits)
  then show ?thesis
    by (intro ext) (simp add: gcodeWordWidth_def imageWordWidth_def)
qed

lemma gcodeSpaceWidthTotal_eq: "gcodeSpaceWidthTotal cfg fnt = imageSpaceWidthTotal cfg fnt"
  by (simp add: gcodeSpaceWidthTotal_def imageSpaceWidthTotal_def Let_def split: option.splits)

lemma gcodeWrap_eq: "gcodeWrap cfg fnt = imageWrap cfg fnt"
  by (simp add: gcodeWrap_def imageWrap_def gcodeWordWidth_eq gcodeSpaceWidthTotal_eq)

lemma imageLayout_eq:
  "inputText cfg \<noteq> [] \<Longrightarrow> imageLayout cfg fnt = Some (gcodeLayout cfg fnt)"
  by (auto simp add: gcodeLayout_def imageLayout_def gcodeWrap_eq Let_def)

lemma svgWrap_eq: "svgWrap cfg fnt = dxfWrap cfg fnt"
proof -
  have "svgCharWidth cfg fnt c = dxfCharWidth cfg fnt c" for c
    by (simp add: svgCharWidth_def dxfCharWidth_def)
  then have "svgWordWidth cfg fnt = dxfWordWidth cfg fnt"
    by (intro ext) (simp add: svgWordWidth_def dxfWordWidth_def)
  moreover have "svgSpaceWidthTotal cfg fnt = dxfSpaceWidthTotal cfg fnt"
    by (simp add: svgSpaceWidthTotal_def dxfSpaceWidthTotal_def)
  ultimately show ?thesis by (simp add: svgWrap_def dxfWrap_def)
qed

lemma svgTestLineWidth_eq: "svgTestLineWidth cfg fnt = dxfTestLineWidth cfg fnt"
proof -
  have "svgTestLineCharWidth cfg fnt t c = dxfTestLineCharWidth cfg fnt t c" for t c
    by (simp add: svgTestLineCharWidth_def dxfTestLineCharWidth_def)
  then show ?thesis
    by (intro ext) (simp add: svgTestLineWidth_def dxfTestLineWidth_def)
qed

lemma svgDimensions_eq:
  "dimWidth (svgCalculateDimensions cfg fnt h t) = dimWidth (dxfCalculateDimensions cfg fnt h t)"
  "dimWrappedLines (svgCalculateDimensions cfg fnt h t) =
     dimWrappedLines (dxfCalculateDimensions cfg fnt h t)"
  by (simp_all add: svgCalculateDimensions_def dxfCalculateDimensions_def Let_def svgTestLineWidth_eq)

lemma svgFits_eq:
  "maxHeight cfg \<le> 0 \<Longrightarrow> svgFits cfg fnt h = dxfFits cfg fnt h"
  by (intro ext) (simp add: svgFits_def dxfFits_def Let_def svgDimensions_eq)

lemma svgLayout_eq:
  assumes "\<not> autoFit cfg \<or> maxHeight cfg \<le> 0"
  shows "svgLayout cfg fnt fontKeys = dxfLayout cfg fnt fontKeys"
proof (cases "autoFit cfg \<and> (maxWidth cfg > 0 \<or> maxHeight cfg > 0)")
  case False
  then show ?thesis
    by (auto simp add: svgLayout_def dxfLayout_def Let_def svgWrap_eq)
next
  case True
  then have h: "maxHeight cfg \<le> 0" using assms by simp
  show ?thesis
    using True
    by (auto simp add: svgLayout_def dxfLayout_def Let_def svgWrap_eq svgFits_eq [OF h] svgDimensions_eq)
qed

lemma svgAdvance_eq: "svgAdvance cfg fnt outScale sz line i = dxfAdvance cfg fnt outScale sz line i"
  by (simp add: svgAdvance_def dxfAdvance_def)

lemma svgLineAdvance_eq:
  "svgLineAdvance cfg h outScale sz line = dxfLineAdvance cfg h outScale sz line"
  by (simp add: svgLineAdvance_def dxfLineAdvance_def)

lemma svgPlacement_eq:
  assumes "\<not> autoFit cfg \<or> maxHeight cfg \<le> 0"
  shows "svgPlacement cfg fnt fontKeys = dxfPlacement cfg fnt fontKeys"
proof -
  have a: "svgAdvance cfg fnt = dxfAdvance cfg fnt"
    by (intro ext) (rule svgAdvance_eq)
  have l: "svgLineAdvance cfg = dxfLineAdvance cfg"
    by (intro ext) (rule svgLineAdvance_eq)
  show ?thesis
    by (simp add: svgPlacement_def dxfPlacement_def svgLayout_eq [OF assms] a l
        split: option.splits)
qed

text \<open>
  Every character of a wrapped line is a character of the text or the space that
  joins two words.
\<close>

lemma splitOn_chars: "w \<in> set (splitOn sep s) \<Longrightarrow> set w \<subseteq> set s"
proof (induction s arbitrary: w)
  case Nil
  then show ?case by simp
next
  case (Cons c cs)
  have ne: "splitOn sep cs \<noteq> []" by (rule splitOn_nonempty)
  show ?case
  proof (cases "c = sep")
    case True
    with Cons.prems have "w = [] \<or> w \<in> set (splitOn sep cs)" by simp
    with Cons.IH show ?thesis by auto
  next
    case False
    with Cons.prems have "w = c # hd (splitOn sep cs) \<or> w \<in> set (tl (splitOn sep cs))" by simp
    then show ?thesis
    proof
      assume w: "w = c # hd (splitOn sep cs)"
      have "set (hd (splitOn sep cs)) \<subseteq> set cs"
        using Cons.IH [of "hd (splitOn sep cs)"] ne by simp
      with w show ?thesis by auto
    next
      assume "w \<in> set (tl (splitOn sep cs))"
      then have "w \<in> set (splitOn sep cs)" using ne by (meson list.set_sel(2))
      with Cons.IH show ?thesis by auto
    qed
  qed
qed

lemma wrapWord_chars:
  assumes "set w \<subseteq> A"
    and "(\<forall>x \<in> set (fst st). set x \<subseteq> insert 32 A) \<and> set (fst (snd st)) \<subseteq> insert 32 A"
  shows "(\<forall>x \<in> set (fst (wrapWord f s l w st)). set x \<subseteq> insert 32 A) \<and>
         set (fst (snd (wrapWord f s l w st))) \<subseteq> insert 32 A"
proof -
  obtain wr cur cw where st: "st = (wr, cur, cw)"
    by (cases st) auto
  from assms(2) have wr: "\<forall>x \<in> set wr. set x \<subseteq> insert 32 A" and cur: "set cur \<subseteq> insert 32 A"
    by (simp_all add: st)
  have w: "set w \<subseteq> insert 32 A" using assms(1) by (rule subset_insertI2)
  show ?thesis
  proof (cases "length cur > 0 \<and> cw + s + f w > l")
    case True
    then have "wrapWord f s l w st = (wr @ [cur], w, f w)"
      by (simp add: st wrapWord_def Let_def)
    then show ?thesis using wr cur w by simp
  next
    case False
    show ?thesis
    proof (cases "length cur > 0")
      case True
      with False have "wrapWord f s l w st = (wr, cur @ [32] @ w, cw + (s + f w))"
        by (simp add: st wrapWord_def Let_def)
      then show ?thesis using wr cur w by simp
    next
      case False
      then have "wrapWord f s l w st = (wr, w, f w)"
        by (simp add: st wrapWord_def Let_def)
      then show ?thesis using wr w by simp
    qed
  qed
qed

lemma wrapWords_chars:
  assumes "\<forall>w \<in> set ws. set w \<subseteq> A"
    and "(\<forall>x \<in> set (fst st). set x \<subseteq> insert 32 A) \<and> set (fst (snd st)) \<subseteq> insert 32 A"
  shows "(\<forall>x \<in> set (fst (fold (wrapWord f s l) ws st)). set x \<subseteq> insert 32 A) \<and>
         set (fst (snd (fold (wrapWord f s l) ws st))) \<subseteq> insert 32 A"
  using assms
proof (induction ws arbitrary: st)
  case Nil
  then show ?case by simp
next
  case (Cons w ws)
  have w: "set w \<subseteq> A" using Cons.prems(1) by simp
  have ws: "\<forall>w \<in> set ws. set w \<subseteq> A" using Cons.prems(1) by simp
  have step: "(\<forall>x \<in> set (fst (wrapWord f s l w st)). set x \<subseteq> insert 32 A) \<and>
         set (fst (snd (wrapWord f s l w st))) \<subseteq> insert 32 A"
    by (rule wrapWord_chars [OF w Cons.prems(2)])
  have e: "fold (wrapWord f s l) (w # ws) st = fold (wrapWord f s l) ws (wrapWord f s l w st)"
    by simp
  show ?case
    unfolding e by (rule Cons.IH [OF ws step])
qed

lemma wrapInputLine_chars:
  assumes "set line \<subseteq> A" "\<forall>x \<in> set acc. set x \<subseteq> insert 32 A"
  shows "\<forall>x \<in> set (wrapInputLine f s l line acc). set x \<subseteq> insert 32 A"
proof -
  have w: "\<forall>w \<in> set (splitOn 32 line). set w \<subseteq> A"
    using splitOn_chars assms(1) by blast
  obtain wr cur cw where st: "fold (wrapWord f s l) (splitOn 32 line) (acc, [], 0) = (wr, cur, cw)"
    by (metis prod_cases3)
  have "(\<forall>x \<in> set wr. set x \<subseteq> insert 32 A) \<and> set cur \<subseteq> insert 32 A"
    using wrapWords_chars [OF w, of "(acc, [], 0)" f s l] assms(2) by (simp add: st)
  then show ?thesis
    by (auto simp add: wrapInputLine_def st)
qed

lemma wrapLines_chars:
  assumes "\<forall>line \<in> set ls. set line \<subseteq> A" "\<forall>x \<in> set acc. set x \<subseteq> insert 32 A"
  shows "\<forall>x \<in> set (fold (wrapInputLine f s l) ls acc). set x \<subseteq> insert 32 A"
  using assms
proof (induction ls arbitrary: acc)
  case Nil
  then show ?case by simp
next
  case (Cons line ls)
  have line: "set line \<subseteq> A" using Cons.prems(1) by simp
  have ls: "\<forall>line \<in> set ls. set line \<subseteq> A" using Cons.prems(1) by simp
  have step: "\<forall>x \<in> set (wrapInputLine f s l line acc). set x \<subseteq> insert 32 A"
    by (rule wrapInputLine_chars [OF line Cons.prems(2)])
  have e: "fold (wrapInputLine f s l) (line # ls) acc =
      fold (wrapInputLine f s l) ls (wrapInputLine f s l line acc)"
    by simp
  show ?case
    unfolding e by (rule Cons.IH [OF ls step])
qed

lemma inputLines_chars: "\<forall>line \<in> set (inputLines cfg). set line \<subseteq> set (inputText cfg)"
  using splitOn_chars by (auto simp add: inputLines_def)

lemma wrapText_chars:
  "\<forall>x \<in> set (wrapText f s l (inputLines cfg)). set x \<subseteq> insert 32 (set (inputText cfg))"
  unfolding wrapText_def
  by (rule wrapLines_chars [OF inputLines_chars]) simp

lemma gcodeWrap_chars:
  "\<forall>x \<in> set (gcodeWrap cfg fnt). set x \<subseteq> insert 32 (set (inputText cfg))"
  using wrapText_chars [of _ _ _ cfg] inputLines_chars [of cfg]
  by (auto simp add: gcodeWrap_def)

lemma testWrap_chars:
  "\<forall>x \<in> set (testWrap cfg fnt t). set x \<subseteq> insert 32 (set (inputText cfg))"
  using wrapText_chars [of _ _ _ cfg] inputLines_chars [of cfg]
  by (auto simp add: testWrap_def)

lemma fitLoop_lines:
  "snd (fitLoop cfg fnt t best) = snd best \<or> (\<exists>s. snd (fitLoop cfg fnt t best) = testWrap cfg fnt s)"
proof -
  have "dimWrappedLines (calculateDimensions cfg fnt s) = testWrap cfg fnt s" for s
    by (simp add: calculateDimensions_def Let_def)
  then show ?thesis
    using fitLoop_spec [of cfg fnt t best] by (metis snd_conv)
qed

lemma gcodeLayout_chars:
  "\<forall>x \<in> set (snd (gcodeLayout cfg fnt)). set x \<subseteq> insert 32 (set (inputText cfg))"
proof (cases "autoFit cfg \<and> (maxWidth cfg > 0 \<or> maxHeight cfg > 0)")
  case False
  then show ?thesis
    using gcodeWrap_chars [of cfg fnt] by (auto simp add: gcodeLayout_def Let_def)
next
  case True
  then have l: "gcodeLayout cfg fnt = fitLoop cfg fnt (outputSize cfg) (outputSize cfg, gcodeWrap cfg fnt)"
    by (simp add: gcodeLayout_def Let_def)
  from fitLoop_lines [of cfg fnt "outputSize cfg" "(outputSize cfg, gcodeWrap cfg fnt)"]
  show ?thesis
    unfolding l
  proof
    assume "snd (fitLoop cfg fnt (outputSize cfg) (outputSize cfg, gcodeWrap cfg fnt)) =
        snd (outputSize cfg, gcodeWrap cfg fnt)"
    then show "\<forall>x \<in> set (snd (fitLoop cfg fnt (outputSize cfg) (outputSize cfg, gcodeWrap cfg fnt))).
        set x \<subseteq> insert 32 (set (inputText cfg))"
      using gcodeWrap_chars [of cfg fnt] by simp
  next
    assume "\<exists>s. snd (fitLoop cfg fnt (outputSize cfg) (outputSize cfg, gcodeWrap cfg fnt)) =
        testWrap cfg fnt s"
    then obtain s where "snd (fitLoop cfg fnt (outputSize cfg) (outputSize cfg, gcodeWrap cfg fnt)) =
        testWrap cfg fnt s" ..
    then show "\<forall>x \<in> set (snd (fitLoop cfg fnt (outputSize cfg) (outputSize cfg, gcodeWrap cfg fnt))).
        set x \<subseteq> insert 32 (set (inputText cfg))"
      using testWrap_chars [of cfg fnt s] by simp
  qed
qed

text \<open>
  When every character of the text has the same font entry as its normalised
  form, the lookups with and without \<open>normalizeCharacter\<close> agree on every
  character of every wrapped line.
\<close>

lemma lookup_line:
  assumes h: "\<forall>c \<in> set (inputText cfg). fnt [c] = fnt (normalizeCharacter [c])"
    and l: "set line \<subseteq> insert 32 (set (inputText cfg))" and i: "i < length line"
  shows "fnt [line ! i] = fnt (normalizeCharacter [line ! i])"
proof (cases "line ! i = 32")
  case True
  then show ?thesis by (simp add: normalizeCharacter_def)
next
  case False
  have "line ! i \<in> set line" using i by simp
  then have "line ! i \<in> set (inputText cfg)" using l False by auto
  then show ?thesis using h by simp
qed

lemma wrapText_cong:
  assumes "\<And>line w. line \<in> set ls \<Longrightarrow> w \<in> set (splitOn 32 line) \<Longrightarrow> f w = g w"
  shows "wrapText f s l ls = wrapText g s l ls"
proof -
  have w: "wrapWord f s l w = wrapWord g s l w" if "f w = g w" for w
    using that by (intro ext) (simp add: wrapWord_def)
  have "wrapInputLine f s l line = wrapInputLine g s l line" if line: "line \<in> set ls" for line
  proof (intro ext)
    fix acc
    have "fold (wrapWord f s l) (splitOn 32 line) (acc, [], 0) =
        fold (wrapWord g s l) (splitOn 32 line) (acc, [], 0)"
      by (rule fold_cong [OF refl refl]) (rule w, rule assms [OF line])
    then show "wrapInputLine f s l line acc = wrapInputLine g s l line acc"
      by (simp add: wrapInputLine_def)
  qed
  then show ?thesis
    unfolding wrapText_def by (intro fold_cong [OF refl refl]) simp
qed

lemma svgWrap_image:
  assumes h: "\<forall>c \<in> set (inputText cfg). fnt [c] = fnt (normalizeCharacter [c])"
  shows "svgWrap cfg fnt = imageWrap cfg fnt"
proof -
  have c: "svgCharWidth cfg fnt c = imageCharWidth cfg fnt c" if "c \<in> set (inputText cfg)" for c
    using h that by (simp add: svgCharWidth_def imageCharWidth_def)
  have "svgWordWidth cfg fnt w = imageWordWidth cfg fnt w"
    if line: "line \<in> set (inputLines cfg)" and w: "w \<in> set (splitOn 32 line)" for line w
  proof -
    have "set w \<subseteq> set (inputText cfg)"
      using splitOn_chars [OF w] inputLines_chars [of cfg] line by blast
    then have "\<And>x. x \<in> set w \<Longrightarrow> svgCharWidth cfg fnt x = imageCharWidth cfg fnt x"
      using c by blast
    then have "fold (\<lambda>c wordWidth. wordWidth + svgCharWidth cfg fnt c) w 0 =
        fold (\<lambda>c wordWidth. wordWidth + imageCharWidth cfg fnt c) w 0"
      by (intro fold_cong [OF refl refl]) simp
    then show ?thesis by (simp add: svgWordWidth_def imageWordWidth_def)
  qed
  then have "wrapText (svgWordWidth cfg fnt) s l (inputLines cfg) =
      wrapText (imageWordWidth cfg fnt) s l (inputLines cfg)" for s l
    by (rule wrapText_cong)
  moreover have "svgSpaceWidthTotal cfg fnt = imageSpaceWidthTotal cfg fnt"
    by (simp add: svgSpaceWidthTotal_def imageSpaceWidthTotal_def)
  ultimately show ?thesis by (simp add: svgWrap_def imageWrap_def)
qed

lemma normalizeCharacter_space: "normalizeCharacter [32] = [32]"
  by (simp add: normalizeCharacter_def)

lemma gcodeAdvance_eq:
  "gcodeAdvance cfg fnt kerning outScale sz line i =
     svgAdvance cfg fnt outScale sz line i - kerningAt fnt kerning line i"
proof (cases "fnt (normalizeCharacter [line ! i])")
  case None
  have "line ! i = 32 \<Longrightarrow> fnt [32] = None"
    using None by (simp add: normalizeCharacter_space)
  then show ?thesis
    using None by (auto simp: gcodeAdvance_def svgAdvance_def kerningAt_def Let_def)
next
  case (Some charData)
  then show ?thesis
    by (simp add: gcodeAdvance_def svgAdvance_def kerningAt_def Let_def split: option.splits)
qed

lemma imageAdvance_eq:
  assumes "fnt [line ! i] = fnt (normalizeCharacter [line ! i])"
  shows "imageAdvance cfg fnt outScale sz line i = svgAdvance cfg fnt outScale sz line i"
  using assms by (simp add: imageAdvance_def svgAdvance_def Let_def)

lemma advances_nth:
  assumes "l < length ls" "i < length (ls ! l)"
  shows "map (\<lambda>line. map (f line) [0 ..< length line]) ls ! l ! i = f (ls ! l) i"
  using assms by simp

lemma gcodePlacement_fields:
  assumes "gcodeLayout cfg fnt = (sz, ls)"
  shows "placedSize (gcodePlacement cfg fnt kerning) = sz"
    "placedLines (gcodePlacement cfg fnt kerning) = ls"
    "advances (gcodePlacement cfg fnt kerning) =
       map (\<lambda>line. map (gcodeAdvance cfg fnt kerning (sz / referenceHeight cfg) sz line) [0 ..< length line]) ls"
    "lineAdvances (gcodePlacement cfg fnt kerning) = map (gcodeLineAdvance cfg sz) ls"
  by (simp_all add: gcodePlacement_def assms Let_def)

lemma gcodeLineAdvances:
  "lineAdvances (gcodePlacement cfg fnt kerning) =
     map (\<lambda>line. if length line = 0
                  then placedSize (gcodePlacement cfg fnt kerning) * 0.5
                  else placedSize (gcodePlacement cfg fnt kerning) + lineGap cfg)
       (placedLines (gcodePlacement cfg fnt kerning))"
proof -
  obtain sz ls where l: "gcodeLayout cfg fnt = (sz, ls)" by (cases "gcodeLayout cfg fnt")
  show ?thesis
    by (simp add: gcodePlacement_fields [OF l] gcodeLineAdvance_def)
qed

lemma image_agrees:
  assumes nonempty: "inputText cfg \<noteq> []"
  shows "\<exists>p. imagePlacement cfg fnt = Some p \<and>
      placedSize p = placedSize (gcodePlacement cfg fnt kerning) \<and>
      placedLines p = placedLines (gcodePlacement cfg fnt kerning) \<and>
      lineAdvances p = lineAdvances (gcodePlacement cfg fnt kerning) \<and>
      ((\<forall>c \<in> set (inputText cfg). fnt [c] = fnt (normalizeCharacter [c])) \<longrightarrow>
         (\<forall>l < length (placedLines p). \<forall>i < length (placedLines p ! l).
            advances (gcodePlacement cfg fnt kerning) ! l ! i =
              advances p ! l ! i - kerningAt fnt kerning (placedLines p ! l) i))"
proof -
  obtain sz ls where l: "gcodeLayout cfg fnt = (sz, ls)" by (cases "gcodeLayout cfg fnt")
  define p where "p = \<lparr>placedSize = sz, placedLines = ls,
      advances = map (\<lambda>line. map (imageAdvance cfg fnt (sz / referenceHeight cfg) sz line) [0 ..< length line]) ls,
      lineAdvances = map (imageLineAdvance cfg sz) ls\<rparr>"
  have ip: "imagePlacement cfg fnt = Some p"
    by (simp add: imagePlacement_def imageLayout_eq [OF nonempty] l p_def Let_def)
  have la: "lineAdvances p = lineAdvances (gcodePlacement cfg fnt kerning)"
    by (simp add: p_def gcodePlacement_fields [OF l] gcodeLineAdvance_def imageLineAdvance_def)
  have adv: "advances (gcodePlacement cfg fnt kerning) ! k ! i =
        advances p ! k ! i - kerningAt fnt kerning (placedLines p ! k) i"
    if h: "\<forall>c \<in> set (inputText cfg). fnt [c] = fnt (normalizeCharacter [c])"
      and k: "k < length (placedLines p)" and i: "i < length (placedLines p ! k)" for k i
  proof -
    have k': "k < length ls" and i': "i < length (ls ! k)" using k i by (simp_all add: p_def)
    have "ls ! k \<in> set (snd (gcodeLayout cfg fnt))" using k' by (simp add: l)
    then have "set (ls ! k) \<subseteq> insert 32 (set (inputText cfg))"
      using gcodeLayout_chars [of cfg fnt] by blast
    then have "fnt [ls ! k ! i] = fnt (normalizeCharacter [ls ! k ! i])"
      using lookup_line [OF h _ i'] by blast
    then have "imageAdvance cfg fnt (sz / referenceHeight cfg) sz (ls ! k) i =
        svgAdvance cfg fnt (sz / referenceHeight cfg) sz (ls ! k) i"
      by (rule imageAdvance_eq)
    then show ?thesis
      using k' i' by (simp add: p_def gcodePlacement_fields [OF l] gcodeAdvance_eq)
  qed
  show ?thesis
    using ip la adv by (intro exI [of _ p]) (simp add: p_def gcodePlacement_fields [OF l])
qed

lemma svg_agrees:
  assumes nonempty: "inputText cfg \<noteq> []"
    and off: "\<not> (autoFit cfg \<and> (maxWidth cfg > 0 \<or> maxHeight cfg > 0))"
    and h: "\<forall>c \<in> set (inputText cfg). fnt [c] = fnt (normalizeCharacter [c])"
  shows "\<exists>q. svgPlacement cfg fnt fontKeys = Some q \<and>
      placedSize q = placedSize (gcodePlacement cfg fnt kerning) \<and>
      placedLines q = placedLines (gcodePlacement cfg fnt kerning) \<and>
      (\<forall>l < length (placedLines q). \<forall>i < length (placedLines q ! l).
         advances (gcodePlacement cfg fnt kerning) ! l ! i =
           advances q ! l ! i - kerningAt fnt kerning (placedLines q ! l) i) \<and>
      lineAdvances q =
        map (\<lambda>line. if length line = 0 then placedSize q * 0.5
                     else maxCharHeightOf fnt fontKeys (referenceHeight cfg)
                            * (placedSize q / referenceHeight cfg) + lineGap cfg)
          (placedLines q)"
proof -
  let ?sz = "outputSize cfg" and ?ls = "gcodeWrap cfg fnt"
  have l: "gcodeLayout cfg fnt = (?sz, ?ls)"
    using off by (auto simp add: gcodeLayout_def Let_def)
  have "svgWrap cfg fnt = ?ls"
    by (simp add: svgWrap_image [OF h] gcodeWrap_eq)
  then have sl: "svgLayout cfg fnt fontKeys = Some (?sz, ?ls)"
    using off nonempty by (auto simp add: svgLayout_def Let_def)
  define q where "q = \<lparr>placedSize = ?sz, placedLines = ?ls,
      advances = map (\<lambda>line. map (svgAdvance cfg fnt (?sz / referenceHeight cfg) ?sz line) [0 ..< length line]) ?ls,
      lineAdvances = map (svgLineAdvance cfg (maxCharHeightOf fnt fontKeys (referenceHeight cfg))
                            (?sz / referenceHeight cfg) ?sz) ?ls\<rparr>"
  have sp: "svgPlacement cfg fnt fontKeys = Some q"
    by (simp add: svgPlacement_def sl q_def Let_def)
  have adv: "advances (gcodePlacement cfg fnt kerning) ! k ! i =
        advances q ! k ! i - kerningAt fnt kerning (placedLines q ! k) i"
    if k: "k < length (placedLines q)" and i: "i < length (placedLines q ! k)" for k i
  proof -
    have k': "k < length ?ls" and i': "i < length (?ls ! k)" using k i by (simp_all add: q_def)
    show ?thesis
      using k' i' by (simp add: q_def gcodePlacement_fields [OF l] gcodeAdvance_eq)
  qed
  have la: "lineAdvances q =
        map (\<lambda>line. if length line = 0 then placedSize q * 0.5
                     else maxCharHeightOf fnt fontKeys (referenceHeight cfg)
                            * (placedSize q / referenceHeight cfg) + lineGap cfg)
          (placedLines q)"
    by (simp add: q_def svgLineAdvance_def Let_def)
  show ?thesis
    using sp adv la by (intro exI [of _ q]) (simp add: q_def gcodePlacement_fields [OF l])
qed

text \<open>
  Claim C4, as amended. For a text that is not empty (on the empty text
  \<open>exportImage\<close>, \<open>exportSVG\<close> and \<open>exportDXF\<close> stop before any layout),
  \<open>generateGCode\<close> and \<open>exportImage\<close> compute the same wrapped lines, the same
  auto-fit output size and the same vertical advance for every line:
  \<open>outputSize + lineGap\<close>, and \<open>outputSize * 0.5\<close> for a blank line. When every
  character of the text has the same font entry as its normalised form,
  \<open>generateGCode\<close> advances past a character by what \<open>exportImage\<close> advances minus
  the kerning adjustment to the next character; only \<open>generateGCode\<close> applies
  kerning. \<open>exportSVG\<close> and \<open>exportDXF\<close> compute the same placement as each other
  when auto-fit is off or \<open>maxHeight\<close> is not positive. When the auto-fit block
  does not run and every character has the same font entry as its normalised
  form, \<open>exportSVG\<close> computes the lines and the size of \<open>generateGCode\<close> and its
  horizontal advances up to kerning, and advances a line by
  \<open>maxCharHeight * scale + lineGap\<close> (\<open>outputSize * 0.5\<close> for a blank line), where
  \<open>maxCharHeight\<close> is the largest glyph height of the font.
\<close>

theorem C4_exporter_placement:
  assumes "inputText cfg \<noteq> []"
  shows
    "(\<exists>p. imagePlacement cfg fnt = Some p \<and>
        placedSize p = placedSize (gcodePlacement cfg fnt kerning) \<and>
        placedLines p = placedLines (gcodePlacement cfg fnt kerning) \<and>
        lineAdvances p = lineAdvances (gcodePlacement cfg fnt kerning) \<and>
        ((\<forall>c \<in> set (inputText cfg). fnt [c] = fnt (normalizeCharacter [c])) \<longrightarrow>
           (\<forall>l < length (placedLines p). \<forall>i < length (placedLines p ! l).
              advances (gcodePlacement cfg fnt kerning) ! l ! i =
                advances p ! l ! i - kerningAt fnt kerning (placedLines p ! l) i))) \<and>
     lineAdvances (gcodePlacement cfg fnt kerning) =
       map (\<lambda>line. if length line = 0
                    then placedSize (gcodePlacement cfg fnt kerning) * 0.5
                    else placedSize (gcodePlacement cfg fnt kerning) + lineGap cfg)
         (placedLines (gcodePlacement cfg fnt kerning)) \<and>
     (\<not> autoFit cfg \<or> maxHeight cfg \<le> 0 \<longrightarrow>
        svgPlacement cfg fnt fontKeys = dxfPlacement cfg fnt fontKeys) \<and>
     (\<not> (autoFit cfg \<and> (maxWidth cfg > 0 \<or> maxHeight cfg > 0)) \<and>
      (\<forall>c \<in> set (inputText cfg). fnt [c] = fnt (normalizeCharacter [c])) \<longrightarrow>
        (\<exists>q. svgPlacement cfg fnt fontKeys = Some q \<and>
           placedSize q = placedSize (gcodePlacement cfg fnt kerning) \<and>
           placedLines q = placedLines (gcodePlacement cfg fnt kerning) \<and>
           (\<forall>l < length (placedLines q). \<forall>i < length (placedLines q ! l).
              advances (gcodePlacement cfg fnt kerning) ! l ! i =
                advances q ! l ! i - kerningAt fnt kerning (placedLines q ! l) i) \<and>
           lineAdvances q =
             map (\<lambda>line. if length line = 0 then placedSize q * 0.5
                          else maxCharHeightOf fnt fontKeys (referenceHeight cfg)
                                 * (placedSize q / referenceHeight cfg) + lineGap cfg)
               (placedLines q)))"
  using image_agrees [OF assms, of fnt kerning] gcodeLineAdvances [of cfg fnt kerning]
    svgPlacement_eq [of cfg fnt fontKeys] svg_agrees [OF assms, of fnt fontKeys kerning]
  by blast

subsection \<open>Four texts on which the exporters differ\<close>

text \<open>
  The text \<open>AV\<close> with one kerning rule for the pair, no wrapping and no
  auto-fit; both glyphs are 200 by 280 canvas pixels with an advance of 500 font
  units, on a canvas 400 pixels high.
\<close>

definition kernGlyph :: charData where
  "kernGlyph =
     \<lparr>glyphStrokes = [],
      bounds = \<lparr>minX = 0, minY = 0, maxX = 200, maxY = 280, width = 200, height = 280\<rparr>,
      horizAdvX = Some 500, glyphName = None\<rparr>"

definition kernFont :: font where
  "kernFont = [js ''A'' \<mapsto> kernGlyph, js ''V'' \<mapsto> kernGlyph]"

definition kernConfig :: layoutConfig where
  "kernConfig = \<lparr>inputText = js ''AV'', outputSize = 10, charSpacing = 0, spaceWidth = 2,
     lineGap = 2, maxWidth = 0, maxHeight = 0, autoFit = False, maxTextSize = 20,
     referenceHeight = 400, ascent = 800, descent = - 200\<rparr>"

definition kernRules :: "kernRule list" where
  "kernRules = [unicodeRule (js ''A'') (js ''V'') (1 / 2)]"

lemma kern_layout: "gcodeLayout kernConfig kernFont = (10, [js ''AV''])"
  by (simp add: gcodeLayout_def gcodeWrap_def inputLines_def kernConfig_def js_def)

lemma kern_lookup:
  "\<forall>c \<in> set (inputText kernConfig). kernFont [c] = kernFont (normalizeCharacter [c])"
  by (simp add: kernConfig_def js_def normalizeCharacter_def)

lemma kern_adjust:
  "kerningAt kernFont kernRules (js ''AV'') 0 = 1 / 2"
  "kerningAt kernFont kernRules (js ''AV'') (Suc 0) = 0"
  by (simp_all add: kerningAt_def kernRules_def getKerningAdjustment_def kernStep_def unicodeRule_def
      matchesUnicodePattern_def kernFont_def js_def normalizeCharacter_def)

lemma kern_svgAdvance:
  "svgAdvance kernConfig kernFont (1 / 40) 10 (js ''AV'') 0 = 7 / 2"
  "svgAdvance kernConfig kernFont (1 / 40) 10 (js ''AV'') (Suc 0) = 7 / 2"
  by (simp_all add: svgAdvance_def kernFont_def kernGlyph_def js_def canvasScale_def kernConfig_def
      normalizeCharacter_def)

lemma kern_imageAdvance:
  "imageAdvance kernConfig kernFont (1 / 40) 10 (js ''AV'') 0 = 7 / 2"
  "imageAdvance kernConfig kernFont (1 / 40) 10 (js ''AV'') (Suc 0) = 7 / 2"
  by (simp_all add: imageAdvance_def kernFont_def kernGlyph_def js_def canvasScale_def kernConfig_def)

lemma upt_2: "[0 ..< length (js ''AV'')] = [0, 1]"
  by (simp add: js_def upt_rec)

lemma kern_gcodePlacement:
  "gcodePlacement kernConfig kernFont kernRules =
     \<lparr>placedSize = 10, placedLines = [js ''AV''], advances = [[3, 7 / 2]], lineAdvances = [12]\<rparr>"
proof -
  have r: "referenceHeight kernConfig = 400" "lineGap kernConfig = 2"
    by (simp_all add: kernConfig_def)
  have l: "length (js ''AV'') \<noteq> 0" "js ''AV'' \<noteq> []" by (simp_all add: js_def)
  show ?thesis
    by (simp add: gcodePlacement_def kern_layout Let_def r upt_2 gcodeAdvance_eq kern_svgAdvance
        kern_adjust gcodeLineAdvance_def l)
qed

lemma kern_imagePlacement:
  "imagePlacement kernConfig kernFont =
     Some \<lparr>placedSize = 10, placedLines = [js ''AV''], advances = [[7 / 2, 7 / 2]], lineAdvances = [12]\<rparr>"
proof -
  have r: "referenceHeight kernConfig = 400" "lineGap kernConfig = 2"
    by (simp_all add: kernConfig_def)
  have l: "length (js ''AV'') \<noteq> 0" "js ''AV'' \<noteq> []" by (simp_all add: js_def)
  have t: "inputText kernConfig \<noteq> []" by (simp add: kernConfig_def js_def)
  show ?thesis
    by (simp add: imagePlacement_def imageLayout_eq [OF t] kern_layout Let_def r upt_2
        kern_imageAdvance imageLineAdvance_def l)
qed

lemma kern_height: "maxCharHeightOf kernFont [js ''A'', js ''V''] 400 = 280"
  by (simp add: maxCharHeightOf_def kernFont_def kernGlyph_def js_def)

lemma kern_svgLayout: "svgLayout kernConfig kernFont [js ''A'', js ''V''] = Some (10, [js ''AV''])"
  by (simp add: svgLayout_def svgWrap_def inputLines_def kernConfig_def js_def Let_def)

lemma kern_svgPlacement:
  "svgPlacement kernConfig kernFont [js ''A'', js ''V''] =
     Some \<lparr>placedSize = 10, placedLines = [js ''AV''], advances = [[7 / 2, 7 / 2]], lineAdvances = [9]\<rparr>"
proof -
  have r: "referenceHeight kernConfig = 400" "lineGap kernConfig = 2"
    by (simp_all add: kernConfig_def)
  have l: "length (js ''AV'') \<noteq> 0" "js ''AV'' \<noteq> []" by (simp_all add: js_def)
  show ?thesis
    by (simp add: svgPlacement_def kern_svgLayout Let_def r upt_2 kern_svgAdvance kern_height
        svgLineAdvance_def l)
qed

text \<open>
  Three lines \<open>A\<close> with a height limit of 30 and auto-fit, from size 10. The
  three lines are 34 high for \<open>generateGCode\<close> and 31 high for \<open>exportDXF\<close>, which
  keep size 10; for \<open>exportSVG\<close> they are 28 high at size 10, 29.2 at size 10.5 and
  30.4 at size 11.
\<close>

definition tallConfig :: layoutConfig where
  "tallConfig = \<lparr>inputText = [65, 10, 65, 10, 65], outputSize = 10, charSpacing = 0, spaceWidth = 2,
     lineGap = 2, maxWidth = 0, maxHeight = 30, autoFit = True, maxTextSize = 20,
     referenceHeight = 400, ascent = 800, descent = - 200\<rparr>"

lemma tall_fields:
  "maxWidth tallConfig = 0" "maxHeight tallConfig = 30" "maxTextSize tallConfig = 20"
  "outputSize tallConfig = 10" "autoFit tallConfig" "lineGap tallConfig = 2"
  "referenceHeight tallConfig = 400" "inputText tallConfig \<noteq> []"
  by (simp_all add: tallConfig_def)

lemma tall_lines: "inputLines tallConfig = [[65], [65], [65]]"
  by (simp add: inputLines_def tallConfig_def)

lemma tall_testWrap: "testWrap tallConfig fnt t = [[65], [65], [65]]"
  by (simp add: testWrap_def tall_fields tall_lines)

lemma tall_height: "totalHeightOf first spacing [[65], [65], [65]] = first + spacing + spacing"
  by (simp add: totalHeightOf_def)

lemma tall_fits: "fits tallConfig kernFont t \<longleftrightarrow> t + (t + 2) + (t + 2) \<le> 30"
  by (simp add: fits_def calculateDimensions_def Let_def tall_fields tall_testWrap tall_height)

lemma tall_gcodeLayout: "gcodeLayout tallConfig kernFont = (10, [[65], [65], [65]])"
  by (simp add: gcodeLayout_def Let_def tall_fields gcodeWrap_def tall_lines
      fitLoop.simps [of tallConfig kernFont 10] tall_fits)

lemma tall_svgFits:
  "svgFits tallConfig kernFont 280 t \<longleftrightarrow> t + (280 * (t / 400) + 2) + (280 * (t / 400) + 2) \<le> 30"
  by (simp add: svgFits_def svgCalculateDimensions_def Let_def tall_fields tall_testWrap tall_height)

lemma tall_dxfFits:
  "dxfFits tallConfig kernFont 280 t \<longleftrightarrow> 280 * (t / 400) + (t + 2) + (t + 2) \<le> 30"
  by (simp add: dxfFits_def dxfCalculateDimensions_def Let_def tall_fields tall_testWrap tall_height)

lemma tall_svgLines:
  "dimWrappedLines (svgCalculateDimensions tallConfig kernFont h t) = [[65], [65], [65]]"
  "dimWrappedLines (dxfCalculateDimensions tallConfig kernFont h t) = [[65], [65], [65]]"
  by (simp_all add: svgCalculateDimensions_def dxfCalculateDimensions_def Let_def tall_testWrap)

lemma tall_svgLayout:
  "svgLayout tallConfig kernFont [js ''A'', js ''V''] = Some (21 / 2, [[65], [65], [65]])"
proof -
  have "sizeLoop (svgFits tallConfig kernFont 280)
      (\<lambda>testSize. dimWrappedLines (svgCalculateDimensions tallConfig kernFont 280 testSize))
      20 10 best = (21 / 2, [[65], [65], [65]])" for best
    by (simp add: sizeLoop.simps [of "svgFits tallConfig kernFont 280"] tall_svgFits tall_svgLines)
  then show ?thesis
    by (simp add: svgLayout_def Let_def tall_fields kern_height)
qed

lemma tall_dxfLayout:
  "dxfLayout tallConfig kernFont [js ''A'', js ''V''] = Some (10, [[65], [65], [65]])"
proof -
  have "sizeLoop (dxfFits tallConfig kernFont 280)
      (\<lambda>testSize. dimWrappedLines (dxfCalculateDimensions tallConfig kernFont 280 testSize))
      20 10 best = best" for best
    by (simp add: sizeLoop.simps [of "dxfFits tallConfig kernFont 280"] tall_dxfFits)
  then show ?thesis
    by (simp add: dxfLayout_def Let_def tall_fields kern_height dxfWrap_def tall_lines)
qed

text \<open>
  A right single quotation mark (code 8217) in a font that has the apostrophe
  (code 39): \<open>generateGCode\<close> finds the glyph through \<open>normalizeCharacter\<close>, the
  final loop of \<open>exportImage\<close> looks the character up as it is and finds none.
\<close>

definition quoteFont :: font where
  "quoteFont = [[39] \<mapsto> kernGlyph]"

definition quoteConfig :: layoutConfig where
  "quoteConfig = \<lparr>inputText = [8217], outputSize = 10, charSpacing = 0, spaceWidth = 2,
     lineGap = 2, maxWidth = 0, maxHeight = 0, autoFit = False, maxTextSize = 20,
     referenceHeight = 400, ascent = 800, descent = - 200\<rparr>"

lemma quote_layout: "gcodeLayout quoteConfig quoteFont = (10, [[8217]])"
  by (simp add: gcodeLayout_def gcodeWrap_def inputLines_def quoteConfig_def)

lemma quote_gcodePlacement:
  "gcodePlacement quoteConfig quoteFont [] =
     \<lparr>placedSize = 10, placedLines = [[8217]], advances = [[7 / 2]], lineAdvances = [12]\<rparr>"
  by (simp add: gcodePlacement_def quote_layout Let_def)
     (simp add: gcodeAdvance_def gcodeLineAdvance_def normalizeCharacter_def quoteFont_def
        kernGlyph_def canvasScale_def quoteConfig_def)

lemma quote_imagePlacement:
  "imagePlacement quoteConfig quoteFont =
     Some \<lparr>placedSize = 10, placedLines = [[8217]], advances = [[5]], lineAdvances = [12]\<rparr>"
proof -
  have t: "inputText quoteConfig \<noteq> []" by (simp add: quoteConfig_def)
  show ?thesis
    by (simp add: imagePlacement_def imageLayout_eq [OF t] quote_layout Let_def)
       (simp add: imageAdvance_def imageLineAdvance_def quoteFont_def quoteConfig_def)
qed

text \<open>The empty text: only \<open>generateGCode\<close> lays it out.\<close>

lemma empty_placement:
  "imagePlacement (kernConfig\<lparr>inputText := []\<rparr>) kernFont = None"
  "svgPlacement (kernConfig\<lparr>inputText := []\<rparr>) kernFont fontKeys = None"
  "dxfPlacement (kernConfig\<lparr>inputText := []\<rparr>) kernFont fontKeys = None"
  "gcodePlacement (kernConfig\<lparr>inputText := []\<rparr>) kernFont kernRules =
     \<lparr>placedSize = 10, placedLines = [[]], advances = [[]], lineAdvances = [5]\<rparr>"
  by (simp_all add: imagePlacement_def imageLayout_def svgPlacement_def svgLayout_def
      dxfPlacement_def dxfLayout_def gcodePlacement_def gcodeLayout_def gcodeWrap_def
      inputLines_def gcodeLineAdvance_def kernConfig_def Let_def)

theorem C4_exporter_placement_witness:
  "inputText kernConfig \<noteq> [] \<and> \<not> autoFit kernConfig \<and>
   kernFont [65] = kernFont (normalizeCharacter [65]) \<and>
   kernFont [86] = kernFont (normalizeCharacter [86]) \<and>
   imagePlacement kernConfig kernFont =
     Some \<lparr>placedSize = 10, placedLines = [js ''AV''], advances = [[7 / 2, 7 / 2]], lineAdvances = [12]\<rparr> \<and>
   advances (gcodePlacement kernConfig kernFont kernRules) ! 0 ! 0 =
     7 / 2 - kerningAt kernFont kernRules (js ''AV'') 0 \<and>
   svgPlacement kernConfig kernFont [js ''A'', js ''V''] =
     dxfPlacement kernConfig kernFont [js ''A'', js ''V''] \<and>
   dxfPlacement kernConfig kernFont [js ''A'', js ''V''] =
     Some \<lparr>placedSize = 10, placedLines = [js ''AV''], advances = [[7 / 2, 7 / 2]], lineAdvances = [9]\<rparr>"
proof -
  have t: "inputText kernConfig \<noteq> []" and a: "\<not> autoFit kernConfig"
    by (simp_all add: kernConfig_def js_def)
  have n: "kernFont [65] = kernFont (normalizeCharacter [65])"
    "kernFont [86] = kernFont (normalizeCharacter [86])"
    by (simp_all add: normalizeCharacter_def)
  note c = C4_exporter_placement [OF t, of kernFont kernRules "[js ''A'', js ''V'']"]
  from c obtain p where p: "imagePlacement kernConfig kernFont = Some p" and
    adv: "(\<forall>c \<in> set (inputText kernConfig). kernFont [c] = kernFont (normalizeCharacter [c])) \<longrightarrow>
       (\<forall>l < length (placedLines p). \<forall>i < length (placedLines p ! l).
          advances (gcodePlacement kernConfig kernFont kernRules) ! l ! i =
            advances p ! l ! i - kerningAt kernFont kernRules (placedLines p ! l) i)"
    by blast
  have pv: "p = \<lparr>placedSize = 10, placedLines = [js ''AV''], advances = [[7 / 2, 7 / 2]], lineAdvances = [12]\<rparr>"
    using p by (simp add: kern_imagePlacement)
  have "advances (gcodePlacement kernConfig kernFont kernRules) ! 0 ! 0 =
      advances p ! 0 ! 0 - kerningAt kernFont kernRules (placedLines p ! 0) 0"
    using adv kern_lookup by (simp add: pv js_def)
  then have g: "advances (gcodePlacement kernConfig kernFont kernRules) ! 0 ! 0 =
      7 / 2 - kerningAt kernFont kernRules (js ''AV'') 0"
    by (simp add: pv)
  have e: "svgPlacement kernConfig kernFont [js ''A'', js ''V''] =
     dxfPlacement kernConfig kernFont [js ''A'', js ''V'']"
    using c a by blast
  then have d: "dxfPlacement kernConfig kernFont [js ''A'', js ''V''] =
     Some \<lparr>placedSize = 10, placedLines = [js ''AV''], advances = [[7 / 2, 7 / 2]], lineAdvances = [9]\<rparr>"
    by (simp add: kern_svgPlacement)
  from t a n p [unfolded pv] g e d show ?thesis by blast
qed

text \<open>
  The claim as stated fails in each of these ways. On \<open>AV\<close> with a kerning rule
  \<open>generateGCode\<close> advances past \<open>A\<close> by 3 and \<open>exportImage\<close> by 3.5, and
  \<open>generateGCode\<close> advances the line by 12 where \<open>exportSVG\<close> advances it by 9. On
  three lines with a height limit the auto-fit of \<open>exportSVG\<close> chooses size 10.5
  where \<open>generateGCode\<close> and \<open>exportDXF\<close> keep size 10. On a quotation mark that
  the font has only in its normalised form \<open>generateGCode\<close> advances by the
  glyph, 3.5, and \<open>exportImage\<close> by half the output size, 5. On the empty text
  \<open>exportImage\<close> computes no placement.
\<close>

theorem C4_exporter_placement_counterexample:
  "gcodePlacement kernConfig kernFont kernRules =
     \<lparr>placedSize = 10, placedLines = [js ''AV''], advances = [[3, 7 / 2]], lineAdvances = [12]\<rparr> \<and>
   imagePlacement kernConfig kernFont =
     Some \<lparr>placedSize = 10, placedLines = [js ''AV''], advances = [[7 / 2, 7 / 2]], lineAdvances = [12]\<rparr> \<and>
   svgPlacement kernConfig kernFont [js ''A'', js ''V''] =
     Some \<lparr>placedSize = 10, placedLines = [js ''AV''], advances = [[7 / 2, 7 / 2]], lineAdvances = [9]\<rparr> \<and>
   imagePlacement kernConfig kernFont \<noteq> Some (gcodePlacement kernConfig kernFont kernRules) \<and>
   svgPlacement kernConfig kernFont [js ''A'', js ''V''] \<noteq> imagePlacement kernConfig kernFont \<and>
   gcodeLayout tallConfig kernFont = (10, [[65], [65], [65]]) \<and>
   svgLayout tallConfig kernFont [js ''A'', js ''V''] = Some (21 / 2, [[65], [65], [65]]) \<and>
   dxfLayout tallConfig kernFont [js ''A'', js ''V''] = Some (10, [[65], [65], [65]]) \<and>
   gcodePlacement quoteConfig quoteFont [] =
     \<lparr>placedSize = 10, placedLines = [[8217]], advances = [[7 / 2]], lineAdvances = [12]\<rparr> \<and>
   imagePlacement quoteConfig quoteFont =
     Some \<lparr>placedSize = 10, placedLines = [[8217]], advances = [[5]], lineAdvances = [12]\<rparr> \<and>
   imagePlacement (kernConfig\<lparr>inputText := []\<rparr>) kernFont = None"
  unfolding kern_gcodePlacement kern_imagePlacement kern_svgPlacement tall_gcodeLayout
    tall_svgLayout tall_dxfLayout quote_gcodePlacement quote_imagePlacement empty_placement
  by simp

end
